theory Spec2Isabelle
  imports Complex_Main "HOL-Library.AList" "HOL-Library.Char_ord" "HOL-Library.List_Lexorder"
    "HOL-Library.Product_Lexorder"
begin

section \<open>Flight-delay tables: the data model\<close>

text \<open>
  The program (\<^verbatim>\<open>scripts/data_processing.py\<close>) works on pandas data frames. A frame is
  modelled as its number of rows (the length of its index) and the list of its columns
  in order, each a label with its cells. Labels need not be distinct: \<^verbatim>\<open>rename\<close> can give
  two columns the same label. A cell is a missing value (NaN, None and NaT are not told
  apart), a number, a string or a timestamp. Numbers are exact reals: floating-point
  rounding is not modelled.
\<close>

datatype timestamp = Timestamp (ts_year: int) (ts_month: int) (ts_day: int)

datatype cell = NA | Num real | Str string | Ts timestamp

record dataframe =
  nrows :: nat
  columns :: "(string \<times> cell list) list"

text \<open>
  The exceptions the code can raise. \<open>NonUniqueColumn c\<close> is not a Python exception: it marks
  the point where an aggregation function selects \<^verbatim>\<open>df[c]\<close> and gets a frame instead of a
  series because several columns carry the label \<open>c\<close>. The aggregation functions are modelled
  for series only, and the model stops there with this outcome.
\<close>

datatype error = ZeroDivisionError | KeyError string | TypeError | ValueError | AttributeError
  | NonUniqueColumn string

fun bindE :: "error + 'a \<Rightarrow> ('a \<Rightarrow> error + 'b) \<Rightarrow> error + 'b" where
  "bindE (Inl e) f = Inl e"
| "bindE (Inr x) f = f x"

fun mapE :: "('a \<Rightarrow> error + 'b) \<Rightarrow> 'a list \<Rightarrow> error + 'b list" where
  "mapE f [] = Inr []"
| "mapE f (x # xs) = bindE (f x) (\<lambda>y. bindE (mapE f xs) (\<lambda>ys. Inr (y # ys)))"

subsection \<open>Frames\<close>

text \<open>\<^verbatim>\<open>df.columns\<close>, \<^verbatim>\<open>c in df.columns\<close> and \<^verbatim>\<open>len(df)\<close>.\<close>

definition names :: "dataframe \<Rightarrow> string list" where
  "names df = map fst (columns df)"

definition has_col :: "dataframe \<Rightarrow> string \<Rightarrow> bool" where
  "has_col df c = (c \<in> set (names df))"

definition len :: "dataframe \<Rightarrow> nat" where
  "len df = nrows df"

text \<open>
  \<^verbatim>\<open>df[c]\<close>: every column that carries the label, in order. One column is a series, several
  are a frame, none is a \<^verbatim>\<open>KeyError\<close>.
\<close>

definition getitem :: "dataframe \<Rightarrow> string \<Rightarrow> cell list list" where
  "getitem df c = map snd (filter (\<lambda>p. fst p = c) (columns df))"

fun series :: "dataframe \<Rightarrow> string \<Rightarrow> error + cell list" where
  "series df c =
     (case getitem df c of
        [] \<Rightarrow> Inl (KeyError c)
      | [s] \<Rightarrow> Inr s
      | _ \<Rightarrow> Inl (NonUniqueColumn c))"

text \<open>\<^verbatim>\<open>df[mask]\<close> with a boolean series: the rows where the mask is true.\<close>

definition keep :: "bool list \<Rightarrow> 'a list \<Rightarrow> 'a list" where
  "keep msk xs = map fst (filter snd (zip xs msk))"

definition select_rows :: "dataframe \<Rightarrow> bool list \<Rightarrow> dataframe" where
  "select_rows df msk =
     \<lparr>nrows = length (filter id msk),
      columns = map (\<lambda>p. (fst p, keep msk (snd p))) (columns df)\<rparr>"

subsection \<open>Series\<close>

text \<open>
  \<^verbatim>\<open>s > k\<close>: a missing value compares false; comparing a string or a timestamp with a
  number raises \<^verbatim>\<open>TypeError\<close>.
\<close>

fun gt_cell :: "real \<Rightarrow> cell \<Rightarrow> error + bool" where
  "gt_cell k NA = Inr False"
| "gt_cell k (Num x) = Inr (k < x)"
| "gt_cell k (Str s) = Inl TypeError"
| "gt_cell k (Ts t) = Inl TypeError"

definition gt_series :: "cell list \<Rightarrow> real \<Rightarrow> error + bool list" where
  "gt_series s k = mapE (gt_cell k) s"

text \<open>
  The numbers of a series for \<^verbatim>\<open>mean\<close> and \<^verbatim>\<open>max\<close>, which skip missing values
  (\<^verbatim>\<open>skipna=True\<close>) and raise \<^verbatim>\<open>TypeError\<close> on strings.
\<close>

fun num_cell :: "cell \<Rightarrow> error + real list" where
  "num_cell NA = Inr []"
| "num_cell (Num x) = Inr [x]"
| "num_cell (Str s) = Inl TypeError"
| "num_cell (Ts t) = Inl TypeError"

definition nums :: "cell list \<Rightarrow> error + real list" where
  "nums s = bindE (mapE num_cell s) (\<lambda>xss. Inr (concat xss))"

definition mean_of :: "real list \<Rightarrow> cell" where
  "mean_of xs = (if xs = [] then NA else Num (sum_list xs / real (length xs)))"

definition max_of :: "real list \<Rightarrow> cell" where
  "max_of xs = (case xs of [] \<Rightarrow> NA | x # ys \<Rightarrow> Num (fold max ys x))"

definition smean :: "cell list \<Rightarrow> error + cell" where
  "smean s = bindE (nums s) (\<lambda>xs. Inr (mean_of xs))"

definition smax :: "cell list \<Rightarrow> error + cell" where
  "smax s = bindE (nums s) (\<lambda>xs. Inr (max_of xs))"

text \<open>
  \<^verbatim>\<open>s.sum()\<close>: the sum of the numbers, missing values skipped (0 for none); a column of
  strings only is concatenated; any other mixture raises \<^verbatim>\<open>TypeError\<close>.
\<close>

fun is_Str :: "cell \<Rightarrow> bool" where
  "is_Str (Str s) = True"
| "is_Str c = False"

fun str_of :: "cell \<Rightarrow> string" where
  "str_of (Str s) = s"
| "str_of c = []"

definition ssum :: "cell list \<Rightarrow> error + cell" where
  "ssum s =
     (if s \<noteq> [] \<and> list_all is_Str s then Inr (Str (concat (map str_of s)))
      else bindE (nums s) (\<lambda>xs. Inr (Num (sum_list xs))))"

subsection \<open>Scalars\<close>

text \<open>
  \<^verbatim>\<open>a / b\<close> on Python numbers raises \<^verbatim>\<open>ZeroDivisionError\<close> when \<open>b\<close> is zero. When \<open>a\<close> is
  a numpy scalar (the result of \<^verbatim>\<open>sum\<close>) the division by zero gives nan or inf with a
  warning instead; both are the missing value here.
\<close>

fun py_truediv :: "cell \<Rightarrow> cell \<Rightarrow> error + cell" where
  "py_truediv (Num a) (Num b) = (if b = 0 then Inl ZeroDivisionError else Inr (Num (a / b)))"
| "py_truediv a b = Inl TypeError"

fun np_truediv :: "cell \<Rightarrow> cell \<Rightarrow> error + cell" where
  "np_truediv (Num a) (Num b) = (if b = 0 then Inr NA else Inr (Num (a / b)))"
| "np_truediv NA (Num b) = Inr NA"
| "np_truediv a b = Inl TypeError"

fun mul_cell :: "cell \<Rightarrow> real \<Rightarrow> cell" where
  "mul_cell (Num a) k = Num (a * k)"
| "mul_cell c k = c"

text \<open>A Python dict as an association list in insertion order; \<^verbatim>\<open>d[k]\<close> on an absent key
  raises \<^verbatim>\<open>KeyError\<close>.\<close>

definition dict_get :: "(string \<times> 'v) list \<Rightarrow> string \<Rightarrow> error + 'v" where
  "dict_get d k = (case map_of d k of None \<Rightarrow> Inl (KeyError k) | Some v \<Rightarrow> Inr v)"

section \<open>Overall statistics\<close>

text \<open>
  \<^verbatim>\<open>get_delay_stats\<close> (lines 95 to 110). The first block runs when the table has an
  \<^verbatim>\<open>ARR_DELAY\<close> column; \<^verbatim>\<open>len(df)\<close> and \<^verbatim>\<open>len(df[...])\<close> are Python integers, so line 102 is a
  Python division. The second block runs when it has a \<^verbatim>\<open>CANCELLED\<close> column and reads
  \<^verbatim>\<open>stats['total_flights']\<close>, which only the first block stores.
\<close>

fun arr_delay_block :: "dataframe \<Rightarrow> error + (string \<times> cell) list" where
  "arr_delay_block df =
     bindE (series df ''ARR_DELAY'') (\<lambda>arr.
     bindE (gt_series arr 15) (\<lambda>msk.
     let total = Num (real (len df));
         delayed = Num (real (len (select_rows df msk)))
     in bindE (py_truediv delayed total) (\<lambda>q.
        bindE (smean arr) (\<lambda>avg.
        bindE (smax arr) (\<lambda>mx.
        Inr [(''total_flights'', total), (''delayed_flights'', delayed),
             (''delay_rate'', mul_cell q 100), (''avg_delay'', avg), (''max_delay'', mx)])))))"

fun cancelled_block :: "dataframe \<Rightarrow> (string \<times> cell) list \<Rightarrow> error + (string \<times> cell) list" where
  "cancelled_block df stats =
     bindE (series df ''CANCELLED'') (\<lambda>can.
     bindE (ssum can) (\<lambda>cancelled.
     let stats1 = AList.update ''cancelled_flights'' cancelled stats
     in bindE (dict_get stats1 ''cancelled_flights'') (\<lambda>a.
        bindE (dict_get stats1 ''total_flights'') (\<lambda>b.
        bindE (np_truediv a b) (\<lambda>q.
        Inr (AList.update ''cancellation_rate'' (mul_cell q 100) stats1))))))"

fun get_delay_stats :: "dataframe \<Rightarrow> error + (string \<times> cell) list" where
  "get_delay_stats df =
     bindE (if has_col df ''ARR_DELAY'' then arr_delay_block df else Inr [])
       (\<lambda>stats. if has_col df ''CANCELLED'' then cancelled_block df stats else Inr stats)"

declare arr_delay_block.simps [simp del] cancelled_block.simps [simp del]
  get_delay_stats.simps [simp del] series.simps [simp del]

section \<open>Cleaning\<close>

subsection \<open>Renaming\<close>

text \<open>The dict \<^verbatim>\<open>column_mapping\<close> (lines 30 to 59), in the order Python iterates over it.\<close>

definition column_mapping :: "(string \<times> string) list" where
  "column_mapping =
    [(''FlightDate'', ''FL_DATE''),
     (''FL_DATE'', ''FL_DATE''),
     (''Airline'', ''OP_CARRIER''),
     (''Reporting_Airline'', ''OP_CARRIER''),
     (''CARRIER'', ''OP_CARRIER''),
     (''OP_UNIQUE_CARRIER'', ''OP_CARRIER''),
     (''Origin'', ''ORIGIN''),
     (''ORIGIN'', ''ORIGIN''),
     (''Dest'', ''DEST''),
     (''DEST'', ''DEST''),
     (''DepDelay'', ''DEP_DELAY''),
     (''DEP_DELAY'', ''DEP_DELAY''),
     (''ArrDelay'', ''ARR_DELAY''),
     (''ARR_DELAY'', ''ARR_DELAY''),
     (''Cancelled'', ''CANCELLED''),
     (''CANCELLED'', ''CANCELLED''),
     (''Diverted'', ''DIVERTED''),
     (''DIVERTED'', ''DIVERTED''),
     (''CarrierDelay'', ''CARRIER_DELAY''),
     (''CARRIER_DELAY'', ''CARRIER_DELAY''),
     (''WeatherDelay'', ''WEATHER_DELAY''),
     (''WEATHER_DELAY'', ''WEATHER_DELAY''),
     (''NASDelay'', ''NAS_DELAY''),
     (''NAS_DELAY'', ''NAS_DELAY''),
     (''SecurityDelay'', ''SECURITY_DELAY''),
     (''SECURITY_DELAY'', ''SECURITY_DELAY''),
     (''LateAircraftDelay'', ''LATE_AIRCRAFT_DELAY''),
     (''LATE_AIRCRAFT_DELAY'', ''LATE_AIRCRAFT_DELAY'')]"

text \<open>
  \<^verbatim>\<open>df.rename(columns={old: new})\<close> relabels every column that carries \<open>old\<close> and looks at no
  other label, so the result can carry \<open>new\<close> more than once.
\<close>

definition rename :: "dataframe \<Rightarrow> string \<Rightarrow> string \<Rightarrow> dataframe" where
  "rename df old new =
     df\<lparr>columns := map (\<lambda>p. (if fst p = old then new else fst p, snd p)) (columns df)\<rparr>"

fun rename_all :: "(string \<times> string) list \<Rightarrow> dataframe \<Rightarrow> dataframe" where
  "rename_all [] df = df"
| "rename_all (m # ms) df =
     rename_all ms (if has_col df (fst m) then rename df (fst m) (snd m) else df)"

subsection \<open>Assignment to a label\<close>

text \<open>
  \<^verbatim>\<open>df[key] = value\<close>. A series replaces every column that carries the label (pandas
  broadcasts it over them) and is appended as a new column when none does. A frame must
  have as many columns as carry the label, which it replaces in order; otherwise pandas
  raises \<^verbatim>\<open>ValueError\<close>. The value is given as its list of columns: one for a series.
\<close>

fun replace_cols :: "string \<Rightarrow> cell list list \<Rightarrow> (string \<times> cell list) list \<Rightarrow> (string \<times> cell list) list" where
  "replace_cols key vs [] = []"
| "replace_cols key vs (p # ps) =
     (if fst p = key
      then (case vs of [] \<Rightarrow> p # ps | v # vs' \<Rightarrow> (key, v) # replace_cols key vs' ps)
      else p # replace_cols key vs ps)"

fun setitem :: "dataframe \<Rightarrow> string \<Rightarrow> cell list list \<Rightarrow> error + dataframe" where
  "setitem df key [v] =
     Inr (if has_col df key
          then df\<lparr>columns := map (\<lambda>p. if fst p = key then (key, v) else p) (columns df)\<rparr>
          else df\<lparr>columns := columns df @ [(key, v)]\<rparr>)"
| "setitem df key vs =
     (if length (getitem df key) = length vs
      then Inr (df\<lparr>columns := replace_cols key vs (columns df)\<rparr>)
      else Inl ValueError)"

subsection \<open>Dates\<close>

text \<open>\<^verbatim>\<open>'date' in col.lower()\<close>, on ASCII letters.\<close>

definition lower_char :: "char \<Rightarrow> char" where
  "lower_char c =
     (case map_of (zip ''ABCDEFGHIJKLMNOPQRSTUVWXYZ'' ''abcdefghijklmnopqrstuvwxyz'') c of
        None \<Rightarrow> c
      | Some l \<Rightarrow> l)"

definition lower :: "string \<Rightarrow> string" where
  "lower s = map lower_char s"

fun contains :: "string \<Rightarrow> string \<Rightarrow> bool" where
  "contains sub [] = (sub = [])"
| "contains sub (c # cs) = (take (length sub) (c # cs) = sub \<or> contains sub cs)"

text \<open>Lines 66 to 71: \<^verbatim>\<open>FL_DATE\<close> when present, else the first label that contains "date".\<close>

definition find_date_col :: "dataframe \<Rightarrow> string option" where
  "find_date_col df =
     (if has_col df ''FL_DATE'' then Some ''FL_DATE''
      else find (\<lambda>col. contains ''date'' (lower col)) (names df))"

text \<open>
  \<^verbatim>\<open>pd.to_datetime(s, errors='coerce')\<close>. How pandas reads a string or a number as a
  timestamp is not part of the program: it is the parameter \<open>parse\<close>, which sees the whole
  series (pandas guesses one format for it) and the cell. A value that cannot be read
  becomes missing; missing values and timestamps stay as they are. Given a frame (the
  label is carried by several columns) pandas raises \<^verbatim>\<open>ValueError\<close>.
\<close>

definition to_datetime_series :: "(cell list \<Rightarrow> cell \<Rightarrow> timestamp option) \<Rightarrow> cell list \<Rightarrow> cell list" where
  "to_datetime_series parse s =
     map (\<lambda>c. case c of
                 NA \<Rightarrow> NA
               | Ts t \<Rightarrow> Ts t
               | _ \<Rightarrow> (case parse s c of None \<Rightarrow> NA | Some t \<Rightarrow> Ts t)) s"

fun to_datetime :: "(cell list \<Rightarrow> cell \<Rightarrow> timestamp option) \<Rightarrow> cell list list \<Rightarrow> error + cell list" where
  "to_datetime parse [s] = Inr (to_datetime_series parse s)"
| "to_datetime parse vs = Inl ValueError"

text \<open>
  The \<^verbatim>\<open>.dt\<close> accessors. The day of the week (Monday is 0) is computed from the number of
  days since 1970-01-01, a Thursday.
\<close>

definition days_from_civil :: "int \<Rightarrow> int \<Rightarrow> int \<Rightarrow> int" where
  "days_from_civil y m d =
     (let y' = (if m \<le> 2 then y - 1 else y);
          era = y' div 400;
          yoe = y' - era * 400;
          mp = (m + 9) mod 12;
          doy = (153 * mp + 2) div 5 + d - 1;
          doe = yoe * 365 + yoe div 4 - yoe div 100 + doy
      in era * 146097 + doe - 719468)"

fun dt_month :: "cell \<Rightarrow> cell" where
  "dt_month (Ts t) = Num (of_int (ts_month t))"
| "dt_month c = NA"

fun dt_dayofweek :: "cell \<Rightarrow> cell" where
  "dt_dayofweek (Ts t) =
     Num (of_int ((days_from_civil (ts_year t) (ts_month t) (ts_day t) + 3) mod 7))"
| "dt_dayofweek c = NA"

fun dt_year :: "cell \<Rightarrow> cell" where
  "dt_year (Ts t) = Num (of_int (ts_year t))"
| "dt_year c = NA"

fun dt :: "(cell \<Rightarrow> cell) \<Rightarrow> cell list list \<Rightarrow> error + cell list list" where
  "dt f [s] = Inr [map f s]"
| "dt f vs = Inl AttributeError"

text \<open>Lines 73 to 77.\<close>

fun date_block :: "(cell list \<Rightarrow> cell \<Rightarrow> timestamp option) \<Rightarrow> dataframe \<Rightarrow> error + dataframe" where
  "date_block parse df =
     (case find_date_col df of
        None \<Rightarrow> Inr df
      | Some date_col \<Rightarrow>
          bindE (to_datetime parse (getitem df date_col)) (\<lambda>conv.
          bindE (setitem df date_col [conv]) (\<lambda>df1.
          bindE (dt dt_month (getitem df1 date_col)) (\<lambda>mo.
          bindE (setitem df1 ''MONTH'' mo) (\<lambda>df2.
          bindE (dt dt_dayofweek (getitem df2 date_col)) (\<lambda>dw.
          bindE (setitem df2 ''DAY_OF_WEEK'' dw) (\<lambda>df3.
          bindE (dt dt_year (getitem df3 date_col)) (\<lambda>yr.
          setitem df3 ''YEAR'' yr))))))))"

subsection \<open>Missing delays and the delay flag\<close>

definition delay_cols :: "string list" where
  "delay_cols = [''DEP_DELAY'', ''ARR_DELAY'', ''CARRIER_DELAY'', ''WEATHER_DELAY'',
                 ''NAS_DELAY'', ''SECURITY_DELAY'', ''LATE_AIRCRAFT_DELAY'']"

definition fillna :: "real \<Rightarrow> cell list \<Rightarrow> cell list" where
  "fillna k s = map (\<lambda>c. if c = NA then Num k else c) s"

text \<open>Lines 83 to 85.\<close>

fun fill_delays :: "string list \<Rightarrow> dataframe \<Rightarrow> error + dataframe" where
  "fill_delays [] df = Inr df"
| "fill_delays (col # cols) df =
     bindE (if has_col df col then setitem df col (map (fillna 0) (getitem df col)) else Inr df)
       (fill_delays cols)"

definition astype_int :: "bool list \<Rightarrow> cell list" where
  "astype_int bs = map (\<lambda>b. Num (if b then 1 else 0)) bs"

text \<open>Lines 88 and 89.\<close>

fun delay_flag :: "dataframe \<Rightarrow> error + dataframe" where
  "delay_flag df =
     (if has_col df ''ARR_DELAY''
      then bindE (mapE (\<lambda>s. gt_series s 15) (getitem df ''ARR_DELAY'')) (\<lambda>gts.
           setitem df ''IS_DELAYED'' (map astype_int gts))
      else Inr df)"

text \<open>\<^verbatim>\<open>clean_flight_data\<close> (lines 25 to 92); \<^verbatim>\<open>df.copy()\<close> is the value itself.\<close>

fun clean_flight_data :: "(cell list \<Rightarrow> cell \<Rightarrow> timestamp option) \<Rightarrow> dataframe \<Rightarrow> error + dataframe" where
  "clean_flight_data parse df =
     bindE (date_block parse (rename_all column_mapping df)) (\<lambda>df1.
     bindE (fill_delays delay_cols df1) delay_flag)"

declare date_block.simps [simp del] delay_flag.simps [simp del]
  clean_flight_data.simps [simp del] setitem.simps [simp del]

section \<open>Grouped statistics\<close>

subsection \<open>Grouping\<close>

text \<open>
  \<^verbatim>\<open>df.groupby(key)\<close> makes one group for each value of the key column that is not missing
  and lists the groups in ascending order of the key (\<^verbatim>\<open>sort=True\<close>, \<^verbatim>\<open>dropna=True\<close>).
  Numbers are ordered by value, strings by their characters and timestamps by date; keys
  of different kinds are ordered numbers first, then strings, then timestamps.
\<close>

fun key_of :: "cell \<Rightarrow> nat \<times> real \<times> string \<times> int \<times> int \<times> int" where
  "key_of NA = (0, 0, [], 0, 0, 0)"
| "key_of (Num x) = (1, x, [], 0, 0, 0)"
| "key_of (Str s) = (2, 0, s, 0, 0, 0)"
| "key_of (Ts t) = (3, 0, [], ts_year t, ts_month t, ts_day t)"

definition group_keys :: "cell list \<Rightarrow> cell list" where
  "group_keys kc = sort_key key_of (remdups (filter (\<lambda>c. c \<noteq> NA) kc))"

definition group_cells :: "cell list \<Rightarrow> cell list \<Rightarrow> cell \<Rightarrow> cell list" where
  "group_cells kc vc k = map snd (filter (\<lambda>p. fst p = k) (zip kc vc))"

text \<open>
  The aggregations \<^verbatim>\<open>'count'\<close> (cells that are not missing), \<^verbatim>\<open>'mean'\<close> and \<^verbatim>\<open>'std'\<close> (the
  sample standard deviation, missing for fewer than two numbers).
\<close>

datatype aggfn = Count | Mean | Std

definition std_of :: "real list \<Rightarrow> cell" where
  "std_of xs =
     (if length xs < 2 then NA
      else let m = sum_list xs / real (length xs)
           in Num (sqrt (sum_list (map (\<lambda>x. (x - m) ^ 2) xs) / real (length xs - 1))))"

fun apply_agg :: "aggfn \<Rightarrow> cell list \<Rightarrow> error + cell" where
  "apply_agg Count s = Inr (Num (real (length (filter (\<lambda>c. c \<noteq> NA) s))))"
| "apply_agg Mean s = smean s"
| "apply_agg Std s = bindE (nums s) (\<lambda>xs. Inr (std_of xs))"

text \<open>
  \<^verbatim>\<open>df.groupby(key).agg({col: fns, ...})\<close>. The result has the group keys as its index and
  one column for each named column and function: here a list of rows, each a key with
  its values in that order. A key label carried by several columns raises \<^verbatim>\<open>ValueError\<close>;
  a named column that the table lacks raises \<^verbatim>\<open>KeyError\<close>.
\<close>

fun agg_select :: "dataframe \<Rightarrow> string \<times> aggfn list \<Rightarrow> error + cell list \<times> aggfn list" where
  "agg_select df (col, fns) = bindE (series df col) (\<lambda>vc. Inr (vc, fns))"

fun agg_group :: "cell list \<Rightarrow> (cell list \<times> aggfn list) list \<Rightarrow> cell \<Rightarrow> error + cell \<times> cell list" where
  "agg_group kc sel k =
     bindE (mapE (\<lambda>(vc, fns). mapE (\<lambda>f. apply_agg f (group_cells kc vc k)) fns) sel)
       (\<lambda>vss. Inr (k, concat vss))"

fun groupby_agg :: "dataframe \<Rightarrow> string \<Rightarrow> (string \<times> aggfn list) list \<Rightarrow> error + (cell \<times> cell list) list" where
  "groupby_agg df key spec =
     (case getitem df key of
        [] \<Rightarrow> Inl (KeyError key)
      | [kc] \<Rightarrow>
          bindE (mapE (agg_select df) spec) (\<lambda>sel.
          mapE (agg_group kc sel) (group_keys kc))
      | _ \<Rightarrow> Inl ValueError)"

subsection \<open>The result frames\<close>

text \<open>
  A grouped result: the labels of its value columns and its rows (key, values).
  \<^verbatim>\<open>.round(2)\<close> is numpy's rounding: scale by 100, round half to even, scale back.
\<close>

record grouped =
  header :: "string list"
  rows :: "(cell \<times> cell list) list"

definition rint :: "real \<Rightarrow> int" where
  "rint x =
     (let f = \<lfloor>x\<rfloor>; d = x - of_int f
      in if d < 1 / 2 then f else if 1 / 2 < d then f + 1 else if even f then f else f + 1)"

definition round2 :: "real \<Rightarrow> real" where
  "round2 x = of_int (rint (x * 100)) / 100"

fun round_cell :: "cell \<Rightarrow> cell" where
  "round_cell (Num x) = Num (round2 x)"
| "round_cell c = c"

definition round_rows :: "(cell \<times> cell list) list \<Rightarrow> (cell \<times> cell list) list" where
  "round_rows rs = map (\<lambda>r. (fst r, map round_cell (snd r))) rs"

text \<open>\<^verbatim>\<open>g[col]\<close> and \<^verbatim>\<open>g[col] = g[col] * k\<close> on a grouped result.\<close>

definition col_value :: "string list \<Rightarrow> string \<Rightarrow> cell \<times> cell list \<Rightarrow> cell" where
  "col_value hdr col r = (case map_of (zip hdr (snd r)) col of None \<Rightarrow> NA | Some v \<Rightarrow> v)"

definition scale_col :: "grouped \<Rightarrow> string \<Rightarrow> real \<Rightarrow> grouped" where
  "scale_col g col k =
     g\<lparr>rows := map (\<lambda>r. (fst r, map (\<lambda>hv. if fst hv = col then mul_cell (snd hv) k else snd hv)
                                    (zip (header g) (snd r)))) (rows g)\<rparr>"

text \<open>
  \<^verbatim>\<open>g.sort_values(col, ascending=False)\<close>. pandas reverses the column, asks numpy for the
  permutation that sorts it (\<^verbatim>\<open>argsort\<close>, by default an unstable sort), maps it back and
  reverses it again. numpy's sort is the parameter \<open>argsort\<close>.
\<close>

fun num_of :: "cell \<Rightarrow> real" where
  "num_of (Num x) = x"
| "num_of c = 0"

definition nargsort_desc :: "(real list \<Rightarrow> nat list) \<Rightarrow> real list \<Rightarrow> nat list" where
  "nargsort_desc argsort items =
     (let non_nans = rev items;
          non_nan_idx = rev [0..<length items]
      in rev (map (\<lambda>j. non_nan_idx ! j) (argsort non_nans)))"

definition sort_values_desc :: "(real list \<Rightarrow> nat list) \<Rightarrow> grouped \<Rightarrow> string \<Rightarrow> grouped" where
  "sort_values_desc argsort g col =
     g\<lparr>rows := map (\<lambda>i. rows g ! i)
                  (nargsort_desc argsort (map (\<lambda>r. num_of (col_value (header g) col r)) (rows g)))\<rparr>"

subsection \<open>By carrier, airport, month and year\<close>

text \<open>\<^verbatim>\<open>get_carrier_stats\<close> (lines 113 to 127).\<close>

fun get_carrier_stats :: "(real list \<Rightarrow> nat list) \<Rightarrow> dataframe \<Rightarrow> error + grouped option" where
  "get_carrier_stats argsort df =
     (if \<not> has_col df ''OP_CARRIER'' \<or> \<not> has_col df ''ARR_DELAY'' then Inr None
      else
        bindE (groupby_agg df ''OP_CARRIER''
                 [(''ARR_DELAY'', [Count, Mean, Std]),
                  (''IS_DELAYED'', [if has_col df ''IS_DELAYED'' then Mean else Count])]) (\<lambda>rs.
        let carrier_stats =
              \<lparr>header = [''total_flights'', ''avg_delay'', ''std_delay'', ''delay_rate''],
               rows = round_rows rs\<rparr>;
            carrier_stats = scale_col carrier_stats ''delay_rate'' 100
        in Inr (Some (sort_values_desc argsort carrier_stats ''total_flights''))))"

text \<open>\<^verbatim>\<open>get_airport_stats\<close> (lines 130 to 142).\<close>

fun get_airport_stats :: "(real list \<Rightarrow> nat list) \<Rightarrow> dataframe \<Rightarrow> string \<Rightarrow> error + grouped option" where
  "get_airport_stats argsort df airport_col =
     (if \<not> has_col df airport_col \<or> \<not> has_col df ''ARR_DELAY'' then Inr None
      else
        bindE (groupby_agg df airport_col [(''ARR_DELAY'', [Count, Mean])]) (\<lambda>rs.
        let airport_stats = \<lparr>header = [''total_flights'', ''avg_delay''], rows = round_rows rs\<rparr>
        in Inr (Some (sort_values_desc argsort airport_stats ''total_flights''))))"

text \<open>\<^verbatim>\<open>get_monthly_stats\<close> (lines 164 to 177) and \<^verbatim>\<open>get_yearly_stats\<close> (lines 180 to 193):
  no call of \<^verbatim>\<open>sort_values\<close>.\<close>

fun get_monthly_stats :: "dataframe \<Rightarrow> error + grouped option" where
  "get_monthly_stats df =
     (if \<not> has_col df ''MONTH'' \<or> \<not> has_col df ''ARR_DELAY'' then Inr None
      else
        bindE (groupby_agg df ''MONTH''
                 [(''ARR_DELAY'', [Count, Mean]),
                  (''IS_DELAYED'', [if has_col df ''IS_DELAYED'' then Mean else Count])]) (\<lambda>rs.
        let monthly = \<lparr>header = [''total_flights'', ''avg_delay'', ''delay_rate''],
                       rows = round_rows rs\<rparr>
        in Inr (Some (scale_col monthly ''delay_rate'' 100))))"

fun get_yearly_stats :: "dataframe \<Rightarrow> error + grouped option" where
  "get_yearly_stats df =
     (if \<not> has_col df ''YEAR'' \<or> \<not> has_col df ''ARR_DELAY'' then Inr None
      else
        bindE (groupby_agg df ''YEAR''
                 [(''ARR_DELAY'', [Count, Mean]),
                  (''IS_DELAYED'', [if has_col df ''IS_DELAYED'' then Mean else Count])]) (\<lambda>rs.
        let yearly = \<lparr>header = [''total_flights'', ''avg_delay'', ''delay_rate''],
                      rows = round_rows rs\<rparr>
        in Inr (Some (scale_col yearly ''delay_rate'' 100))))"

declare get_carrier_stats.simps [simp del] get_airport_stats.simps [simp del]
  get_monthly_stats.simps [simp del] get_yearly_stats.simps [simp del]
  groupby_agg.simps [simp del] agg_group.simps [simp del] agg_select.simps [simp del]

section \<open>Delay causes\<close>

text \<open>
  \<^verbatim>\<open>col.replace('_DELAY', '')\<close>: every occurrence of \<open>old\<close>, left to right and without
  overlap. The counter is the number of characters of a match still to be skipped.
\<close>

fun replace_from :: "string \<Rightarrow> string \<Rightarrow> nat \<Rightarrow> string \<Rightarrow> string" where
  "replace_from old new k [] = (if old = [] then new else [])"
| "replace_from old new (Suc k) (c # cs) = replace_from old new k cs"
| "replace_from old new 0 (c # cs) =
     (if old = [] then new @ c # replace_from old new 0 cs
      else if take (length old) (c # cs) = old
        then new @ replace_from old new (length old - 1) cs
      else c # replace_from old new 0 cs)"

definition str_replace :: "string \<Rightarrow> string \<Rightarrow> string \<Rightarrow> string" where
  "str_replace s old new = replace_from old new 0 s"

record cause =
  count :: nat
  total_minutes :: cell
  avg_minutes :: cell

definition cause_cols :: "string list" where
  "cause_cols = [''CARRIER_DELAY'', ''WEATHER_DELAY'', ''NAS_DELAY'',
                 ''SECURITY_DELAY'', ''LATE_AIRCRAFT_DELAY'']"

text \<open>
  \<open>cause_cols\<close> is the list that \<^verbatim>\<open>get_delay_causes\<close> calls \<^verbatim>\<open>delay_cols\<close> (line 147); it
  is not the list of that name in \<^verbatim>\<open>clean_flight_data\<close>. \<open>cause_of\<close> is the body of the loop
  (lines 152 to 159) for one column.
\<close>

fun cause_of :: "dataframe \<Rightarrow> string \<Rightarrow> error + cause" where
  "cause_of df col =
     bindE (series df col) (\<lambda>s.
     bindE (gt_series s 0) (\<lambda>msk.
     let delayed = select_rows df msk
     in bindE (series delayed col) (\<lambda>ds.
        bindE (ssum ds) (\<lambda>total.
        bindE (smean ds) (\<lambda>avg.
        Inr \<lparr>count = len delayed, total_minutes = total, avg_minutes = avg\<rparr>)))))"

fun causes_loop :: "string list \<Rightarrow> dataframe \<Rightarrow> (string \<times> cause) list \<Rightarrow> error + (string \<times> cause) list" where
  "causes_loop [] df causes = Inr causes"
| "causes_loop (col # cols) df causes =
     (if has_col df col
      then bindE (cause_of df col) (\<lambda>c.
           causes_loop cols df (AList.update (str_replace col ''_DELAY'' []) c causes))
      else causes_loop cols df causes)"

text \<open>\<^verbatim>\<open>get_delay_causes\<close> (lines 145 to 161).\<close>

definition get_delay_causes :: "dataframe \<Rightarrow> error + (string \<times> cause) list" where
  "get_delay_causes df = causes_loop cause_cols df []"

declare cause_of.simps [simp del]

section \<open>Vocabulary of the statements\<close>


fun exceeds :: "real \<Rightarrow> cell \<Rightarrow> bool" where
  "exceeds k (Num x) = (k < x)"
| "exceeds k c = False"









text \<open>
  For the order of a grouped result: what the parameter \<open>argsort\<close> must do to be a sort
  (return the positions of the list, each once, in an order that sorts it), the rows in
  descending order of \<^verbatim>\<open>total_flights\<close>, and the rows in strictly ascending order of the
  group key. \<open>insertion_argsort\<close> is one such sort.
\<close>

definition is_argsort :: "(real list \<Rightarrow> nat list) \<Rightarrow> bool" where
  "is_argsort f =
     (\<forall>xs. length (f xs) = length xs \<and> set (f xs) = {..<length xs}
           \<and> sorted (map (\<lambda>i. xs ! i) (f xs)))"

definition by_descending_count :: "grouped \<Rightarrow> bool" where
  "by_descending_count g =
     sorted (rev (map (\<lambda>r. num_of (col_value (header g) ''total_flights'' r)) (rows g)))"

definition by_ascending_key :: "grouped \<Rightarrow> bool" where
  "by_ascending_key g =
     (sorted (map (\<lambda>r. key_of (fst r)) (rows g)) \<and> distinct (map fst (rows g)))"

definition insertion_argsort :: "real list \<Rightarrow> nat list" where
  "insertion_argsort xs = map snd (sort_key fst (zip xs [0..<length xs]))"

text \<open>Three flights with every column the grouped statistics use.\<close>

definition demo_flights :: dataframe where
  "demo_flights =
     \<lparr>nrows = 3,
      columns = [(''OP_CARRIER'', [Str ''AA'', Str ''DL'', Str ''DL'']),
                 (''ORIGIN'', [Str ''JFK'', Str ''JFK'', Str ''LAX'']),
                 (''MONTH'', [Num 2, Num 1, Num 1]),
                 (''YEAR'', [Num 2020, Num 2019, Num 2019]),
                 (''ARR_DELAY'', [Num 10, Num 20, Num 20]),
                 (''IS_DELAYED'', [Num 0, Num 1, Num 1])]\<rparr>"



text \<open>
  For the renaming: the label the mapping gives to a column labelled \<open>n\<close> (itself when
  \<open>n\<close> is no key), the label the loop of lines 61 to 63 leaves it with, and the property
  of a mapping that makes the two agree (no key twice; a target is no key, or a key
  mapped to itself).
\<close>

definition final_label :: "string \<Rightarrow> string" where
  "final_label n = (case map_of column_mapping n of None \<Rightarrow> n | Some t \<Rightarrow> t)"

definition relabel :: "(string \<times> string) list \<Rightarrow> string \<Rightarrow> string" where
  "relabel ms n = fold (\<lambda>m l. if l = fst m then snd m else l) ms n"

definition closed_mapping :: "(string \<times> string) list \<Rightarrow> bool" where
  "closed_mapping ms =
     (distinct (map fst ms)
      \<and> list_all (\<lambda>m. map_of ms (snd m) = None \<or> map_of ms (snd m) = Some (snd m)) ms)"

text \<open>
  For the cleaning: the cells a converted date column holds, the labels of the columns
  that cleaning derives, and three properties of a table used in the proofs (every column
  of a label holds one given series; the date column is converted and the calendar columns
  agree with it; the labels of a table are those of another followed by derived ones).
  \<open>flag_of\<close> is the delay flag of an arrival delay: 1 when it is a number greater than 15,
  else 0. The canonical fields are the targets of the mapping; the plain ones among them
  are neither the date nor a delay.
\<close>

fun is_time :: "cell \<Rightarrow> bool" where
  "is_time NA = True"
| "is_time (Ts t) = True"
| "is_time c = False"

definition derived_cols :: "string list" where
  "derived_cols = [''MONTH'', ''DAY_OF_WEEK'', ''YEAR'', ''IS_DELAYED'']"

definition all_cols :: "dataframe \<Rightarrow> string \<Rightarrow> cell list \<Rightarrow> bool" where
  "all_cols d key v = (has_col d key \<and> (\<forall>s \<in> set (getitem d key). s = v))"

definition dated :: "dataframe \<Rightarrow> bool" where
  "dated d =
     (case find_date_col d of
        None \<Rightarrow> True
      | Some dc \<Rightarrow>
          (\<exists>conv. getitem d dc = [conv] \<and> list_all is_time conv
             \<and> all_cols d ''MONTH'' (map dt_month conv)
             \<and> all_cols d ''DAY_OF_WEEK'' (map dt_dayofweek conv)
             \<and> all_cols d ''YEAR'' (map dt_year conv)))"

definition extends :: "dataframe \<Rightarrow> dataframe \<Rightarrow> bool" where
  "extends df d = (\<exists>ex. names d = names df @ ex \<and> set ex \<subseteq> set derived_cols)"

definition flag_of :: "cell \<Rightarrow> cell" where
  "flag_of c = Num (if exceeds 15 c then 1 else 0)"

definition calendar_cols :: "string list" where
  "calendar_cols = [''MONTH'', ''DAY_OF_WEEK'', ''YEAR'']"

definition canonical_fields :: "string list" where
  "canonical_fields =
     [''FL_DATE'', ''OP_CARRIER'', ''ORIGIN'', ''DEST'', ''DEP_DELAY'', ''ARR_DELAY'',
      ''CANCELLED'', ''DIVERTED'', ''CARRIER_DELAY'', ''WEATHER_DELAY'', ''NAS_DELAY'',
      ''SECURITY_DELAY'', ''LATE_AIRCRAFT_DELAY'']"

definition plain_fields :: "string list" where
  "plain_fields = [''OP_CARRIER'', ''ORIGIN'', ''DEST'', ''CANCELLED'', ''DIVERTED'']"

text \<open>
  Examples for the cleaning: a date parser that reads nothing and one that reads the
  string 2020-01-01 only; a raw table of two flights under old column names with what
  cleaning makes of it; a table with two spellings of the carrier column with what cleaning
  makes of it.
\<close>

definition no_parse :: "cell list \<Rightarrow> cell \<Rightarrow> timestamp option" where
  "no_parse s c = None"

definition new_year_parse :: "cell list \<Rightarrow> cell \<Rightarrow> timestamp option" where
  "new_year_parse s c = (if c = Str ''2020-01-01'' then Some (Timestamp 2020 1 1) else None)"

definition raw_flights :: dataframe where
  "raw_flights =
     \<lparr>nrows = 2,
      columns = [(''FlightDate'', [Str ''2020-01-01'', Str ''unknown'']),
                 (''Reporting_Airline'', [Str ''AA'', Str ''DL'']),
                 (''ArrDelay'', [NA, Num 20])]\<rparr>"

definition cleaned_flights :: dataframe where
  "cleaned_flights =
     \<lparr>nrows = 2,
      columns = [(''FL_DATE'', [Ts (Timestamp 2020 1 1), NA]),
                 (''OP_CARRIER'', [Str ''AA'', Str ''DL'']),
                 (''ARR_DELAY'', [Num 0, Num 20]),
                 (''MONTH'', [Num 1, NA]),
                 (''DAY_OF_WEEK'', [Num 2, NA]),
                 (''YEAR'', [Num 2020, NA]),
                 (''IS_DELAYED'', [Num 0, Num 1])]\<rparr>"

definition two_spellings :: dataframe where
  "two_spellings =
     \<lparr>nrows = 1,
      columns = [(''Airline'', [Str ''AA'']), (''Reporting_Airline'', [Str ''DL''])]\<rparr>"

definition two_carriers :: dataframe where
  "two_carriers =
     \<lparr>nrows = 1,
      columns = [(''OP_CARRIER'', [Str ''AA'']), (''OP_CARRIER'', [Str ''DL''])]\<rparr>"

section \<open>Evaluation\<close>

text \<open>The definitions that unfold when a function of the program is run on a given table.\<close>

lemmas frame_defs = names_def has_col_def len_def getitem_def series.simps keep_def
  select_rows_def gt_series_def nums_def mean_of_def max_of_def smean_def smax_def ssum_def
  dict_get_def

lemmas stats_defs = get_delay_stats.simps arr_delay_block.simps cancelled_block.simps

lemmas clean_defs = clean_flight_data.simps column_mapping_def rename_def date_block.simps
  find_date_col_def lower_def lower_char_def delay_cols_def fillna_def delay_flag.simps
  astype_int_def setitem.simps to_datetime_series_def days_from_civil_def

lemmas agg_defs = get_carrier_stats.simps get_airport_stats.simps get_monthly_stats.simps
  get_yearly_stats.simps groupby_agg.simps agg_group.simps agg_select.simps group_keys_def
  group_cells_def round_rows_def scale_col_def sort_values_desc_def nargsort_desc_def
  col_value_def std_of_def round2_def rint_def

lemmas causes_defs = get_delay_causes_def cause_cols_def cause_of.simps str_replace_def

section \<open>Facts about frames and series\<close>

lemma has_col_getitem: "has_col df c \<longleftrightarrow> getitem df c \<noteq> []"
  by (auto simp: has_col_def names_def getitem_def filter_empty_conv)










section \<open>Overall statistics\<close>





section \<open>Overall statistics: the empty table and the missing arrival delay\<close>

text \<open>
  Claim C2. For the table with no records, \<^verbatim>\<open>get_delay_stats\<close> is claimed to return an empty
  or placeholder result instead of failing on a division by zero, whichever columns are
  present. The code has no such guard: with an \<^verbatim>\<open>ARR_DELAY\<close> column and no records, line 102
  divides the Python integer 0 by the Python integer 0 and raises \<^verbatim>\<open>ZeroDivisionError\<close>.
\<close>

theorem get_delay_stats_empty_table:
  "get_delay_stats \<lparr>nrows = 0, columns = [(''ARR_DELAY'', []), (''CANCELLED'', [])]\<rparr>
     = Inl ZeroDivisionError"
  by (simp add: stats_defs frame_defs)

text \<open>
  Claim C6. With a \<^verbatim>\<open>CANCELLED\<close> column the result is claimed to hold the cancelled count and
  the cancellation rate also when the table has no \<^verbatim>\<open>ARR_DELAY\<close> column. In the code the
  total is stored by the \<^verbatim>\<open>ARR_DELAY\<close> block only, so on such a table line 108 raises
  \<^verbatim>\<open>KeyError\<close> for \<^verbatim>\<open>total_flights\<close>: here a table of two flights, one of them cancelled.
\<close>

theorem get_delay_stats_cancelled_only:
  "get_delay_stats \<lparr>nrows = 2, columns = [(''CANCELLED'', [Num 0, Num 1])]\<rparr>
     = Inl (KeyError ''total_flights'')"
  by (simp add: stats_defs frame_defs)

section \<open>Grouped statistics: the missing delay flag\<close>

text \<open>
  Claim C5. Every aggregation function is claimed to return an absent result, and never to
  raise, when a column it needs is missing. \<^verbatim>\<open>get_carrier_stats\<close> checks for the carrier and
  the arrival delay only; when the table has both but no \<^verbatim>\<open>IS_DELAYED\<close> column, the
  aggregation still names that column (with \<^verbatim>\<open>'count'\<close> in place of \<^verbatim>\<open>'mean'\<close>) and pandas
  raises \<^verbatim>\<open>KeyError\<close>, whatever sort \<open>argsort\<close> stands for.
\<close>

theorem get_carrier_stats_without_flag:
  "get_carrier_stats argsort
     \<lparr>nrows = 2,
      columns = [(''OP_CARRIER'', [Str ''AA'', Str ''DL'']), (''ARR_DELAY'', [Num 1, Num 20])]\<rparr>
     = Inl (KeyError ''IS_DELAYED'')"
  by (simp add: agg_defs frame_defs)

section \<open>Delay causes\<close>












section \<open>The order of the grouped statistics\<close>

lemma bindE_Inr: "bindE m f = Inr y \<longleftrightarrow> (\<exists>x. m = Inr x \<and> f x = Inr y)"
  by (cases m) simp_all


lemma mapE_agg_group_keys: "mapE (agg_group kc sel) ks = Inr rs \<Longrightarrow> map fst rs = ks"
proof (induction ks arbitrary: rs)
  case Nil
  then show ?case by simp
next
  case (Cons k ks)
  from Cons.prems obtain z zs where z: "agg_group kc sel k = Inr z"
    and zs: "mapE (agg_group kc sel) ks = Inr zs" and rs: "rs = z # zs"
    by (auto simp: bindE_Inr)
  from z have "fst z = k" by (auto simp: agg_group.simps bindE_Inr)
  with Cons.IH [OF zs] rs show ?case by simp
qed

lemma groupby_agg_keys:
  assumes "groupby_agg df key spec = Inr rs"
  shows "\<exists>kc. getitem df key = [kc] \<and> map fst rs = group_keys kc"
proof -
  from assms obtain kc where kc: "getitem df key = [kc]"
    by (auto simp: groupby_agg.simps split: list.splits)
  with assms obtain sel where "mapE (agg_group kc sel) (group_keys kc) = Inr rs"
    by (auto simp: groupby_agg.simps bindE_Inr)
  then have "map fst rs = group_keys kc" by (rule mapE_agg_group_keys)
  with kc show ?thesis by simp
qed

lemma group_keys_sorted: "sorted (map key_of (group_keys kc))"
  by (simp add: group_keys_def)

lemma group_keys_distinct: "distinct (group_keys kc)"
  by (simp add: group_keys_def)

lemma by_ascending_key_scaled:
  assumes "map fst rs = group_keys kc"
  shows "by_ascending_key (scale_col \<lparr>header = h, rows = round_rows rs\<rparr> col k)"
proof -
  have "map fst (rows (scale_col \<lparr>header = h, rows = round_rows rs\<rparr> col k)) = map fst rs"
    by (simp add: scale_col_def round_rows_def comp_def)
  with assms have *: "map fst (rows (scale_col \<lparr>header = h, rows = round_rows rs\<rparr> col k)) = group_keys kc"
    by simp
  have "map (\<lambda>r. key_of (fst r)) (rows (scale_col \<lparr>header = h, rows = round_rows rs\<rparr> col k))
      = map key_of (map fst (rows (scale_col \<lparr>header = h, rows = round_rows rs\<rparr> col k)))"
    by (simp add: comp_def)
  with * show ?thesis
    unfolding by_ascending_key_def
    by (simp only: group_keys_sorted group_keys_distinct simp_thms)
qed

lemma get_monthly_stats_order:
  assumes "get_monthly_stats df = Inr (Some g)"
  shows "by_ascending_key g"
proof -
  from assms obtain rs where rs: "groupby_agg df ''MONTH''
      [(''ARR_DELAY'', [Count, Mean]),
       (''IS_DELAYED'', [if has_col df ''IS_DELAYED'' then Mean else Count])] = Inr rs"
    and g: "g = scale_col \<lparr>header = [''total_flights'', ''avg_delay'', ''delay_rate''],
                            rows = round_rows rs\<rparr> ''delay_rate'' 100"
    by (auto simp: get_monthly_stats.simps bindE_Inr split: if_splits)
  from groupby_agg_keys [OF rs] obtain kc where "map fst rs = group_keys kc" by blast
  then show ?thesis unfolding g by (rule by_ascending_key_scaled)
qed

lemma nargsort_desc_sorted:
  assumes "is_argsort argsort"
  shows "sorted (rev (map (\<lambda>i. items ! i) (nargsort_desc argsort items)))"
    and "set (nargsort_desc argsort items) = {..<length items}"
proof -
  let ?n = "length items"
  let ?p = "argsort (rev items)"
  from assms have len: "length ?p = ?n" and st: "set ?p = {..<?n}"
    and so: "sorted (map (\<lambda>i. rev items ! i) ?p)"
    by (simp_all add: is_argsort_def)
  have idx: "rev [0..<?n] ! j = ?n - 1 - j" if "j < ?n" for j
    using that by (simp add: rev_nth)
  have in_range: "j < ?n" if "j \<in> set ?p" for j
    using that st by auto
  have eq: "map (\<lambda>j. rev [0..<?n] ! j) ?p = map (\<lambda>j. ?n - 1 - j) ?p"
    using idx in_range by (intro map_cong) auto
  have m: "map (\<lambda>i. items ! i) (map (\<lambda>j. ?n - 1 - j) ?p) = map (\<lambda>i. rev items ! i) ?p"
    using in_range by (auto simp: rev_nth comp_def intro!: map_cong)
  have "rev (map (\<lambda>i. items ! i) (nargsort_desc argsort items))
      = map (\<lambda>i. items ! i) (map (\<lambda>j. ?n - 1 - j) ?p)"
    unfolding nargsort_desc_def Let_def eq by (simp only: rev_map rev_rev_ident)
  with m so show "sorted (rev (map (\<lambda>i. items ! i) (nargsort_desc argsort items)))"
    by (simp only:)
  have "(\<lambda>j. ?n - 1 - j) ` {..<?n} = {..<?n}"
  proof
    show "(\<lambda>j. ?n - 1 - j) ` {..<?n} \<subseteq> {..<?n}" by auto
    show "{..<?n} \<subseteq> (\<lambda>j. ?n - 1 - j) ` {..<?n}"
    proof
      fix i assume "i \<in> {..<?n}"
      then have "i = ?n - 1 - (?n - 1 - i)" and "?n - 1 - i \<in> {..<?n}" by auto
      then show "i \<in> (\<lambda>j. ?n - 1 - j) ` {..<?n}" by (rule image_eqI)
    qed
  qed
  with st show "set (nargsort_desc argsort items) = {..<length items}"
    by (simp add: nargsort_desc_def Let_def eq)
qed


lemma sort_values_desc_order:
  assumes "is_argsort argsort"
  shows "by_descending_count (sort_values_desc argsort g ''total_flights'')"
proof -
  let ?c = "\<lambda>r. num_of (col_value (header g) ''total_flights'' r)"
  let ?items = "map ?c (rows g)"
  let ?idx = "nargsort_desc argsort ?items"
  have rng: "i < length (rows g)" if "i \<in> set ?idx" for i
    using that nargsort_desc_sorted(2) [OF assms, of ?items] by auto
  have e: "map ?c (map (\<lambda>i. rows g ! i) ?idx) = map (\<lambda>i. ?items ! i) ?idx"
    using rng by (auto intro!: map_cong)
  have r: "rows (sort_values_desc argsort g ''total_flights'') = map (\<lambda>i. rows g ! i) ?idx"
    by (simp add: sort_values_desc_def)
  have h: "header (sort_values_desc argsort g ''total_flights'') = header g"
    by (simp add: sort_values_desc_def)
  show ?thesis
    unfolding by_descending_count_def r h e
    by (rule nargsort_desc_sorted(1) [OF assms])
qed


lemma get_carrier_stats_order:
  assumes "is_argsort argsort" and "get_carrier_stats argsort df = Inr (Some g)"
  shows "by_descending_count g"
proof -
  from assms(2) obtain g0 where "g = sort_values_desc argsort g0 ''total_flights''"
    by (auto simp: get_carrier_stats.simps bindE_Inr Let_def split: if_splits)
  with sort_values_desc_order [OF assms(1)] show ?thesis by simp
qed

lemma get_airport_stats_order:
  assumes "is_argsort argsort" and "get_airport_stats argsort df airport_col = Inr (Some g)"
  shows "by_descending_count g"
proof -
  from assms(2) obtain g0 where "g = sort_values_desc argsort g0 ''total_flights''"
    by (auto simp: get_airport_stats.simps bindE_Inr Let_def split: if_splits)
  with sort_values_desc_order [OF assms(1)] show ?thesis by simp
qed

lemma get_yearly_stats_order:
  assumes "get_yearly_stats df = Inr (Some g)"
  shows "by_ascending_key g"
proof -
  from assms obtain rs where rs: "groupby_agg df ''YEAR''
      [(''ARR_DELAY'', [Count, Mean]),
       (''IS_DELAYED'', [if has_col df ''IS_DELAYED'' then Mean else Count])] = Inr rs"
    and g: "g = scale_col \<lparr>header = [''total_flights'', ''avg_delay'', ''delay_rate''],
                            rows = round_rows rs\<rparr> ''delay_rate'' 100"
    by (auto simp: get_yearly_stats.simps bindE_Inr split: if_splits)
  from groupby_agg_keys [OF rs] obtain kc where "map fst rs = group_keys kc" by blast
  then show ?thesis unfolding g by (rule by_ascending_key_scaled)
qed

lemma insertion_argsort_ok: "is_argsort insertion_argsort"
proof -
  have "length (insertion_argsort xs) = length xs \<and> set (insertion_argsort xs) = {..<length xs}
      \<and> sorted (map (\<lambda>i. xs ! i) (insertion_argsort xs))" for xs
  proof -
    let ?z = "zip xs [0..<length xs]"
    have pair: "xs ! snd p = fst p" if "p \<in> set (sort_key fst ?z)" for p
    proof -
      from that have "p \<in> set ?z" by simp
      then obtain i where "i < length xs" and "p = (xs ! i, i)"
        by (auto simp: set_zip)
      then show ?thesis by simp
    qed
    have "map (\<lambda>i. xs ! i) (insertion_argsort xs) = map fst (sort_key fst ?z)"
      using pair by (auto simp: insertion_argsort_def intro!: map_cong)
    then have "sorted (map (\<lambda>i. xs ! i) (insertion_argsort xs))" by simp
    moreover have "set (insertion_argsort xs) = {..<length xs}"
    proof -
      have a: "map snd ?z = [0..<length xs]" by (rule map_snd_zip) simp
      have "set (insertion_argsort xs) = snd ` set ?z" by (simp add: insertion_argsort_def)
      also have "\<dots> = set (map snd ?z)" by (simp only: set_map)
      also have "\<dots> = {..<length xs}" unfolding a by auto
      finally show ?thesis .
    qed
    moreover have "length (insertion_argsort xs) = length xs"
      by (simp add: insertion_argsort_def)
    ultimately show ?thesis by simp
  qed
  then show ?thesis unfolding is_argsort_def by blast
qed

text \<open>
  Claim C7, as amended. When \<open>argsort\<close> sorts, the rows of the carrier statistics and of the
  airport statistics (for any airport column) are in descending order of the group count;
  nothing is said about the order of groups with equal counts, which the sort leaves
  open. The rows of the monthly and of the yearly statistics are not reordered by count:
  they are in strictly ascending order of the group key.
\<close>

theorem grouped_stats_order:
  assumes "is_argsort argsort"
  shows "(get_carrier_stats argsort df = Inr (Some g1) \<longrightarrow> by_descending_count g1)
     \<and> (get_airport_stats argsort df airport_col = Inr (Some g2) \<longrightarrow> by_descending_count g2)
     \<and> (get_monthly_stats df = Inr (Some g3) \<longrightarrow> by_ascending_key g3)
     \<and> (get_yearly_stats df = Inr (Some g4) \<longrightarrow> by_ascending_key g4)"
  using assms get_carrier_stats_order get_airport_stats_order get_monthly_stats_order
    get_yearly_stats_order
  by blast

text \<open>A table of three flights with every grouping column, run through the four
  functions with the sort \<open>insertion_argsort\<close>.\<close>

theorem grouped_stats_order_witness:
  "is_argsort insertion_argsort
   \<and> get_carrier_stats insertion_argsort demo_flights
       = Inr (Some \<lparr>header = [''total_flights'', ''avg_delay'', ''std_delay'', ''delay_rate''],
                    rows = [(Str ''DL'', [Num 2, Num 20, Num 0, Num 100]),
                            (Str ''AA'', [Num 1, Num 10, NA, Num 0])]\<rparr>)
   \<and> by_descending_count
        \<lparr>header = [''total_flights'', ''avg_delay'', ''std_delay'', ''delay_rate''],
         rows = [(Str ''DL'', [Num 2, Num 20, Num 0, Num 100]),
                 (Str ''AA'', [Num 1, Num 10, NA, Num 0])]\<rparr>
   \<and> get_airport_stats insertion_argsort demo_flights ''ORIGIN''
       = Inr (Some \<lparr>header = [''total_flights'', ''avg_delay''],
                    rows = [(Str ''JFK'', [Num 2, Num 15]), (Str ''LAX'', [Num 1, Num 20])]\<rparr>)
   \<and> by_descending_count
        \<lparr>header = [''total_flights'', ''avg_delay''],
         rows = [(Str ''JFK'', [Num 2, Num 15]), (Str ''LAX'', [Num 1, Num 20])]\<rparr>
   \<and> get_monthly_stats demo_flights
       = Inr (Some \<lparr>header = [''total_flights'', ''avg_delay'', ''delay_rate''],
                    rows = [(Num 1, [Num 2, Num 20, Num 100]), (Num 2, [Num 1, Num 10, Num 0])]\<rparr>)
   \<and> by_ascending_key
        \<lparr>header = [''total_flights'', ''avg_delay'', ''delay_rate''],
         rows = [(Num 1, [Num 2, Num 20, Num 100]), (Num 2, [Num 1, Num 10, Num 0])]\<rparr>
   \<and> get_yearly_stats demo_flights
       = Inr (Some \<lparr>header = [''total_flights'', ''avg_delay'', ''delay_rate''],
                    rows = [(Num 2019, [Num 2, Num 20, Num 100]),
                            (Num 2020, [Num 1, Num 10, Num 0])]\<rparr>)
   \<and> by_ascending_key
        \<lparr>header = [''total_flights'', ''avg_delay'', ''delay_rate''],
         rows = [(Num 2019, [Num 2, Num 20, Num 100]), (Num 2020, [Num 1, Num 10, Num 0])]\<rparr>"
proof -
  have c: "get_carrier_stats insertion_argsort demo_flights
       = Inr (Some \<lparr>header = [''total_flights'', ''avg_delay'', ''std_delay'', ''delay_rate''],
                    rows = [(Str ''DL'', [Num 2, Num 20, Num 0, Num 100]),
                            (Str ''AA'', [Num 1, Num 10, NA, Num 0])]\<rparr>)"
    by (simp add: demo_flights_def agg_defs frame_defs insertion_argsort_def)
  have a: "get_airport_stats insertion_argsort demo_flights ''ORIGIN''
       = Inr (Some \<lparr>header = [''total_flights'', ''avg_delay''],
                    rows = [(Str ''JFK'', [Num 2, Num 15]), (Str ''LAX'', [Num 1, Num 20])]\<rparr>)"
    by (simp add: demo_flights_def agg_defs frame_defs insertion_argsort_def)
  have m: "get_monthly_stats demo_flights
       = Inr (Some \<lparr>header = [''total_flights'', ''avg_delay'', ''delay_rate''],
                    rows = [(Num 1, [Num 2, Num 20, Num 100]), (Num 2, [Num 1, Num 10, Num 0])]\<rparr>)"
    by (simp add: demo_flights_def agg_defs frame_defs)
  have y: "get_yearly_stats demo_flights
       = Inr (Some \<lparr>header = [''total_flights'', ''avg_delay'', ''delay_rate''],
                    rows = [(Num 2019, [Num 2, Num 20, Num 100]),
                            (Num 2020, [Num 1, Num 10, Num 0])]\<rparr>)"
    by (simp add: demo_flights_def agg_defs frame_defs)
  from grouped_stats_order [OF insertion_argsort_ok] c a m y insertion_argsort_ok
  show ?thesis by blast
qed

text \<open>
  The claim as stated, descending group count for every grouping key, fails for the
  month: in a table with one flight in month 1 and two in month 2, the monthly statistics
  list month 1 (count 1) before month 2 (count 2).
\<close>

theorem grouped_stats_order_counterexample:
  "get_monthly_stats
     \<lparr>nrows = 3,
      columns = [(''MONTH'', [Num 1, Num 2, Num 2]),
                 (''ARR_DELAY'', [Num 1, Num 20, Num 30]),
                 (''IS_DELAYED'', [Num 0, Num 1, Num 1])]\<rparr>
     = Inr (Some \<lparr>header = [''total_flights'', ''avg_delay'', ''delay_rate''],
                  rows = [(Num 1, [Num 1, Num 1, Num 0]), (Num 2, [Num 2, Num 25, Num 100])]\<rparr>)
   \<and> \<not> by_descending_count
          \<lparr>header = [''total_flights'', ''avg_delay'', ''delay_rate''],
           rows = [(Num 1, [Num 1, Num 1, Num 0]), (Num 2, [Num 2, Num 25, Num 100])]\<rparr>"
  by (simp add: agg_defs frame_defs by_descending_count_def)

section \<open>The delay rate of a group\<close>

























section \<open>Facts about renaming and assignment\<close>

lemma rename_absent: "\<not> has_col df old \<Longrightarrow> rename df old new = df"
proof -
  assume "\<not> has_col df old"
  then have "map (\<lambda>p. (if fst p = old then new else fst p, snd p)) (columns df) = columns df"
    by (intro map_idI) (auto simp: has_col_def names_def)
  then show ?thesis by (simp add: rename_def)
qed

lemma closed_mapping_tail:
  assumes "closed_mapping (m # ms)"
  shows "closed_mapping ms"
proof -
  from assms have d: "distinct (map fst ms)" and nk: "fst m \<notin> fst ` set ms"
    by (simp_all add: closed_mapping_def)
  have "map_of ms (snd m') = None \<or> map_of ms (snd m') = Some (snd m')" if "m' \<in> set ms" for m'
  proof (cases "snd m' = fst m")
    case True
    with nk have "map_of ms (snd m') = None" by (simp add: map_of_eq_None_iff)
    then show ?thesis by simp
  next
    case False
    from assms that
    have "map_of (m # ms) (snd m') = None \<or> map_of (m # ms) (snd m') = Some (snd m')"
      by (simp add: closed_mapping_def list_all_iff)
    with False show ?thesis by (cases m) simp
  qed
  with d show ?thesis by (simp add: closed_mapping_def list_all_iff)
qed

lemma relabel_closed:
  "closed_mapping ms \<Longrightarrow> relabel ms n = (case map_of ms n of None \<Rightarrow> n | Some t \<Rightarrow> t)"
proof (induction ms arbitrary: n)
  case Nil
  then show ?case by (simp add: relabel_def)
next
  case (Cons m ms)
  from Cons.prems have tl: "closed_mapping ms" by (rule closed_mapping_tail)
  have step: "relabel (m # ms) n = relabel ms (if n = fst m then snd m else n)"
    by (simp add: relabel_def)
  show ?case
  proof (cases "n = fst m")
    case True
    from Cons.prems have "map_of (m # ms) (snd m) = None \<or> map_of (m # ms) (snd m) = Some (snd m)"
      by (simp add: closed_mapping_def)
    moreover from Cons.prems have "fst m \<notin> fst ` set ms" by (simp add: closed_mapping_def)
    ultimately have "map_of ms (snd m) = None \<or> map_of ms (snd m) = Some (snd m)"
      by (cases "snd m = fst m") (auto simp: map_of_eq_None_iff)
    with True step Cons.IH [OF tl, of "snd m"] show ?thesis by auto
  next
    case False
    with step Cons.IH [OF tl, of n] show ?thesis by simp
  qed
qed

lemma closed_column_mapping: "closed_mapping column_mapping"
  by code_simp

lemma relabel_final: "relabel column_mapping n = final_label n"
  by (simp add: relabel_closed closed_column_mapping final_label_def)


lemma names_replace_cols: "map fst (replace_cols key vs cols) = map fst cols"
  by (induction cols arbitrary: vs) (auto split: list.splits)

lemma filter_replace_cols_other:
  "c \<noteq> key \<Longrightarrow> filter (\<lambda>p. fst p = c) (replace_cols key vs cols) = filter (\<lambda>p. fst p = c) cols"
  by (induction cols arbitrary: vs) (auto split: list.splits)

lemma getitem_replace_cols:
  "length (filter (\<lambda>p. fst p = key) cols) = length vs \<Longrightarrow>
   map snd (filter (\<lambda>p. fst p = key) (replace_cols key vs cols)) = vs"
proof (induction cols arbitrary: vs)
  case Nil
  then show ?case by simp
next
  case (Cons p ps)
  show ?case
  proof (cases "fst p = key")
    case True
    with Cons.prems obtain v vs' where vs: "vs = v # vs'"
      and len: "length (filter (\<lambda>p. fst p = key) ps) = length vs'"
      by (cases vs) auto
    with True Cons.IH [OF len] show ?thesis by simp
  next
    case False
    with Cons show ?thesis by simp
  qed
qed

lemma replace_cols_same:
  "replace_cols key (map snd (filter (\<lambda>p. fst p = key) cols)) cols = cols"
  by (induction cols) auto

lemma setitem_series:
  "setitem df key [v] =
     Inr (if has_col df key
          then df\<lparr>columns := map (\<lambda>p. if fst p = key then (key, v) else p) (columns df)\<rparr>
          else df\<lparr>columns := columns df @ [(key, v)]\<rparr>)"
  by (simp add: setitem.simps)

lemma setitem_frame:
  "length vs \<noteq> 1 \<Longrightarrow> setitem df key vs =
     (if length (getitem df key) = length vs
      then Inr (df\<lparr>columns := replace_cols key vs (columns df)\<rparr>)
      else Inl ValueError)"
  by (cases vs; cases "tl vs") (simp_all add: setitem.simps)

lemma nrows_setitem: "setitem df key vs = Inr df' \<Longrightarrow> nrows df' = nrows df"
  by (cases "length vs = 1")
    (auto simp: setitem_series setitem_frame length_Suc_conv split: if_splits)

lemma names_setitem_present:
  assumes "setitem df key vs = Inr df'" and "has_col df key"
  shows "names df' = names df"
proof (cases "length vs = 1")
  case True
  then obtain v where "vs = [v]" by (auto simp: length_Suc_conv)
  with assms have "columns df' = map (\<lambda>p. if fst p = key then (key, v) else p) (columns df)"
    by (auto simp: setitem_series)
  then show ?thesis by (simp add: names_def comp_def if_distrib cong: if_cong)
next
  case False
  with assms show ?thesis
    by (auto simp: setitem_frame names_def names_replace_cols split: if_splits)
qed

lemma names_setitem:
  assumes "setitem df key vs = Inr df'"
  shows "names df' = names df \<or> names df' = names df @ [key]"
proof (cases "length vs = 1")
  case True
  then obtain v where "vs = [v]" by (auto simp: length_Suc_conv)
  with assms names_setitem_present [OF assms] show ?thesis
    by (cases "has_col df key") (auto simp: setitem_series names_def)
next
  case False
  with assms show ?thesis
    by (auto simp: setitem_frame names_def names_replace_cols split: if_splits)
qed

lemma getitem_setitem_other:
  assumes "setitem df key vs = Inr df'" and "c \<noteq> key"
  shows "getitem df' c = getitem df c"
proof (cases "length vs = 1")
  case True
  then obtain v where "vs = [v]" by (auto simp: length_Suc_conv)
  with assms have "columns df' = map (\<lambda>p. if fst p = key then (key, v) else p) (columns df)
      \<or> columns df' = columns df @ [(key, v)]"
    by (auto simp: setitem_series split: if_splits)
  then show ?thesis
  proof
    assume c: "columns df' = map (\<lambda>p. if fst p = key then (key, v) else p) (columns df)"
    have "map snd (filter (\<lambda>p. fst p = c) (map (\<lambda>p. if fst p = key then (key, v) else p) cols))
        = map snd (filter (\<lambda>p. fst p = c) cols)" for cols
      using assms(2) by (induction cols) auto
    with c show ?thesis by (simp add: getitem_def)
  next
    assume "columns df' = columns df @ [(key, v)]"
    with assms(2) show ?thesis by (simp add: getitem_def)
  qed
next
  case False
  with assms show ?thesis
    by (auto simp: setitem_frame getitem_def filter_replace_cols_other split: if_splits)
qed

lemma has_col_setitem_other:
  assumes "setitem df key vs = Inr df'" and "c \<noteq> key"
  shows "has_col df' c \<longleftrightarrow> has_col df c"
  using getitem_setitem_other [OF assms] by (simp add: has_col_getitem)

lemma getitem_setitem_series:
  assumes "setitem df key [v] = Inr df'"
  shows "getitem df' key = replicate (max 1 (length (getitem df key))) v"
proof (cases "has_col df key")
  case True
  with assms have c: "columns df' = map (\<lambda>p. if fst p = key then (key, v) else p) (columns df)"
    by (auto simp: setitem_series)
  have "map snd (filter (\<lambda>p. fst p = key) (map (\<lambda>p. if fst p = key then (key, v) else p) cols))
      = replicate (length (filter (\<lambda>p. fst p = key) cols)) v" for cols
    by (induction cols) auto
  moreover from True have "1 \<le> length (getitem df key)"
    by (cases "getitem df key") (simp_all add: has_col_getitem)
  ultimately show ?thesis using c by (simp add: getitem_def max_def)
next
  case False
  then have "getitem df key = []" by (simp add: has_col_getitem)
  with False assms show ?thesis by (auto simp: setitem_series getitem_def)
qed

lemma getitem_setitem_frame:
  assumes "setitem df key vs = Inr df'" and "length vs \<noteq> 1"
  shows "getitem df' key = vs"
  using assms
  by (auto simp: setitem_frame getitem_def getitem_replace_cols split: if_splits)

lemma has_col_setitem_key:
  assumes "setitem df key vs = Inr df'" and "vs \<noteq> []"
  shows "has_col df' key"
proof (cases "length vs = 1")
  case True
  then obtain v where "vs = [v]" by (auto simp: length_Suc_conv)
  with assms getitem_setitem_series [of df key v df'] show ?thesis
    by (auto simp: has_col_getitem max_def)
next
  case False
  with assms getitem_setitem_frame [OF assms(1)] show ?thesis by (simp add: has_col_getitem)
qed

lemma setitem_getitem: "setitem df key (getitem df key) = Inr df"
proof (cases "length (getitem df key) = 1")
  case True
  then obtain v where v: "getitem df key = [v]" by (auto simp: length_Suc_conv)
  then have h: "has_col df key" by (simp add: has_col_getitem)
  have "map (\<lambda>p. if fst p = key then (key, v) else p) (columns df) = columns df"
  proof (rule map_idI)
    fix p assume "p \<in> set (columns df)"
    show "(if fst p = key then (key, v) else p) = p"
    proof (cases "fst p = key")
      case True
      with \<open>p \<in> set (columns df)\<close> have "snd p \<in> set (getitem df key)"
        by (auto simp: getitem_def)
      with v True show ?thesis by (cases p) simp
    next
      case False
      then show ?thesis by simp
    qed
  qed
  with v h show ?thesis by (simp add: setitem_series)
next
  case False
  then show ?thesis
    by (simp add: setitem_frame) (simp add: getitem_def replace_cols_same)
qed

lemma setitem_const:
  assumes "has_col df key" and "\<And>s. s \<in> set (getitem df key) \<Longrightarrow> s = v"
  shows "setitem df key [v] = Inr df"
proof -
  have "map (\<lambda>p. if fst p = key then (key, v) else p) (columns df) = columns df"
  proof (rule map_idI)
    fix p assume p: "p \<in> set (columns df)"
    show "(if fst p = key then (key, v) else p) = p"
    proof (cases "fst p = key")
      case True
      with p have "snd p \<in> set (getitem df key)" by (auto simp: getitem_def)
      with assms(2) True show ?thesis by (cases p) auto
    next
      case False
      then show ?thesis by simp
    qed
  qed
  with assms(1) show ?thesis by (simp add: setitem_series)
qed

lemma setitem_twice:
  assumes "setitem df key vs = Inr df'"
  shows "setitem df' key vs = Inr df'"
proof (cases "length vs = 1")
  case True
  then obtain v where v: "vs = [v]" by (auto simp: length_Suc_conv)
  from assms v have "has_col df' key" by (intro has_col_setitem_key [OF assms]) simp
  moreover from assms v have "s \<in> set (getitem df' key) \<Longrightarrow> s = v" for s
    by (simp add: getitem_setitem_series)
  ultimately show ?thesis unfolding v by (rule setitem_const)
next
  case False
  with getitem_setitem_frame [OF assms] have "getitem df' key = vs" by simp
  with setitem_getitem [of df' key] show ?thesis by simp
qed

section \<open>Cleaning twice\<close>

lemma not_date_labels:
  "list_all (\<lambda>n. \<not> contains ''date'' (lower n) \<and> n \<noteq> ''FL_DATE'') (derived_cols @ delay_cols)"
  by code_simp

lemma find_date_col_Some:
  assumes "find_date_col df = Some dc"
  shows "has_col df dc" and "dc \<notin> set (derived_cols @ delay_cols)"
proof -
  from assms have a: "dc \<in> set (names df) \<and> (dc = ''FL_DATE'' \<or> contains ''date'' (lower dc))"
    by (auto simp: find_date_col_def has_col_def find_Some_iff split: if_splits)
  then show "has_col df dc" by (simp add: has_col_def)
  from a not_date_labels show "dc \<notin> set (derived_cols @ delay_cols)"
    unfolding list_all_iff by blast
qed

lemma find_append_none: "\<forall>x \<in> set ys. \<not> P x \<Longrightarrow> find P (xs @ ys) = find P xs"
  by (induction xs) (auto simp: find_None_iff)

lemma find_append_some: "find P xs = Some x \<Longrightarrow> find P (xs @ ys) = Some x"
  by (induction xs) (auto split: if_splits)

lemma find_date_col_names:
  assumes "names df' = names df \<or> names df' = names df @ [key]"
    and "has_col df key \<or> key \<in> set (derived_cols @ delay_cols)"
  shows "find_date_col df' = find_date_col df"
proof -
  from assms(1) show ?thesis
  proof
    assume "names df' = names df"
    then show ?thesis by (simp add: find_date_col_def has_col_def)
  next
    assume n: "names df' = names df @ [key]"
    from assms(2) show ?thesis
    proof
      assume h: "has_col df key"
      then have "has_col df' ''FL_DATE'' \<longleftrightarrow> has_col df ''FL_DATE''"
        using n by (auto simp: has_col_def)
      moreover have "find (\<lambda>col. contains ''date'' (lower col)) (names df @ [key])
          = find (\<lambda>col. contains ''date'' (lower col)) (names df)"
      proof (cases "contains ''date'' (lower key)")
        case True
        with h obtain x where "find (\<lambda>col. contains ''date'' (lower col)) (names df) = Some x"
          by (cases "find (\<lambda>col. contains ''date'' (lower col)) (names df)")
            (auto simp: find_None_iff has_col_def)
        then show ?thesis by (simp add: find_append_some)
      next
        case False
        then show ?thesis by (intro find_append_none) simp
      qed
      ultimately show ?thesis using n by (simp add: find_date_col_def)
    next
      assume k: "key \<in> set (derived_cols @ delay_cols)"
      with not_date_labels have nk: "\<not> contains ''date'' (lower key)" and "key \<noteq> ''FL_DATE''"
        unfolding list_all_iff by blast+
      then have "has_col df' ''FL_DATE'' \<longleftrightarrow> has_col df ''FL_DATE''"
        using n by (auto simp: has_col_def)
      moreover from nk have "find (\<lambda>col. contains ''date'' (lower col)) (names df @ [key])
          = find (\<lambda>col. contains ''date'' (lower col)) (names df)"
        by (intro find_append_none) simp
      ultimately show ?thesis using n by (simp add: find_date_col_def)
    qed
  qed
qed

lemma find_date_col_setitem:
  assumes "setitem df key vs = Inr df'"
    and "has_col df key \<or> key \<in> set (derived_cols @ delay_cols)"
  shows "find_date_col df' = find_date_col df"
  using names_setitem [OF assms(1)] assms(2) by (rule find_date_col_names)

lemma all_cols_setitem: "setitem df key [v] = Inr df' \<Longrightarrow> all_cols df' key v"
  unfolding all_cols_def
  by (auto simp: getitem_setitem_series intro: has_col_setitem_key)

lemma all_cols_other:
  "setitem df key vs = Inr df' \<Longrightarrow> c \<noteq> key \<Longrightarrow> all_cols df' c v \<longleftrightarrow> all_cols df c v"
  by (simp add: all_cols_def getitem_setitem_other has_col_setitem_other)

lemma to_datetime_Inr:
  "to_datetime parse vs = Inr conv \<Longrightarrow> \<exists>s. vs = [s] \<and> conv = to_datetime_series parse s"
  by (cases vs; cases "tl vs") auto

lemma is_time_to_datetime: "list_all is_time (to_datetime_series parse s)"
  by (auto simp: to_datetime_series_def list_all_iff split: cell.splits option.splits)

lemma to_datetime_series_id: "list_all is_time s \<Longrightarrow> to_datetime_series parse s = s"
proof -
  assume "list_all is_time s"
  then have "\<And>c. c \<in> set s \<Longrightarrow>
      (case c of NA \<Rightarrow> NA | Ts t \<Rightarrow> Ts t
       | _ \<Rightarrow> (case parse s c of None \<Rightarrow> NA | Some t \<Rightarrow> Ts t)) = c"
    by (auto simp: list_all_iff split: cell.splits)
  then show ?thesis unfolding to_datetime_series_def by (intro map_idI) 
qed

lemma dt_Inr: "dt f vs = Inr r \<Longrightarrow> \<exists>s. vs = [s] \<and> r = [map f s]"
  by (cases vs; cases "tl vs") auto


lemma rename_all_columns:
  "rename_all ms df = df\<lparr>columns := map (\<lambda>p. (relabel ms (fst p), snd p)) (columns df)\<rparr>"
proof (induction ms arbitrary: df)
  case Nil
  then show ?case by (simp add: relabel_def)
next
  case (Cons m ms)
  have "(if has_col df (fst m) then rename df (fst m) (snd m) else df) = rename df (fst m) (snd m)"
    by (simp add: rename_absent)
  then show ?case
    by (simp add: Cons.IH relabel_def rename_def comp_def)
qed

lemma final_label_idem: "final_label (final_label n) = final_label n"
proof (cases "map_of column_mapping n")
  case None
  then show ?thesis by (simp add: final_label_def)
next
  case (Some t)
  then have "(n, t) \<in> set column_mapping" by (rule map_of_SomeD)
  with closed_column_mapping
  have "map_of column_mapping t = None \<or> map_of column_mapping t = Some t"
    unfolding closed_mapping_def list_all_iff by auto
  with Some show ?thesis by (auto simp: final_label_def)
qed

lemma final_label_derived: "list_all (\<lambda>n. final_label n = n) (derived_cols @ delay_cols)"
  by code_simp

lemma rename_all_fixed:
  assumes "\<And>n. n \<in> set (names d) \<Longrightarrow> final_label n = n"
  shows "rename_all column_mapping d = d"
proof -
  have "map (\<lambda>p. (relabel column_mapping (fst p), snd p)) (columns d) = columns d"
  proof (rule map_idI)
    fix p assume "p \<in> set (columns d)"
    then have "fst p \<in> set (names d)" by (simp add: names_def)
    with assms show "(relabel column_mapping (fst p), snd p) = p"
      by (simp add: relabel_final)
  qed
  then show ?thesis by (simp add: rename_all_columns)
qed

lemma names_rename_all: "names (rename_all column_mapping df) = map final_label (names df)"
  by (simp add: rename_all_columns names_def relabel_final comp_def)

lemma getitem_rename_all:
  "getitem (rename_all column_mapping df) c
     = map snd (filter (\<lambda>p. final_label (fst p) = c) (columns df))"
  by (simp add: rename_all_columns getitem_def relabel_final filter_map comp_def)

lemma date_block_None: "find_date_col df = None \<Longrightarrow> date_block parse df = Inr df"
  by (simp add: date_block.simps)

lemma date_block_Some:
  assumes "date_block parse df = Inr d" and "find_date_col df = Some dc"
  shows "\<exists>s df1 df2 df3.
      getitem df dc = [s]
    \<and> setitem df dc [to_datetime_series parse s] = Inr df1
    \<and> setitem df1 ''MONTH'' [map dt_month (to_datetime_series parse s)] = Inr df2
    \<and> setitem df2 ''DAY_OF_WEEK'' [map dt_dayofweek (to_datetime_series parse s)] = Inr df3
    \<and> setitem df3 ''YEAR'' [map dt_year (to_datetime_series parse s)] = Inr d"
proof -
  from find_date_col_Some [OF assms(2)] have dcn: "dc \<noteq> ''MONTH''" "dc \<noteq> ''DAY_OF_WEEK''"
    "dc \<noteq> ''YEAR''"
    by (auto simp: derived_cols_def)
  from assms obtain conv df1 mo df2 dw df3 yr where
    c: "to_datetime parse (getitem df dc) = Inr conv" and
    s1: "setitem df dc [conv] = Inr df1" and
    m: "dt dt_month (getitem df1 dc) = Inr mo" and
    s2: "setitem df1 ''MONTH'' mo = Inr df2" and
    w: "dt dt_dayofweek (getitem df2 dc) = Inr dw" and
    s3: "setitem df2 ''DAY_OF_WEEK'' dw = Inr df3" and
    y: "dt dt_year (getitem df3 dc) = Inr yr" and
    s4: "setitem df3 ''YEAR'' yr = Inr d"
    by (auto simp: date_block.simps bindE_Inr)
  from to_datetime_Inr [OF c] obtain s where s: "getitem df dc = [s]"
    and conv: "conv = to_datetime_series parse s" by blast
  from s1 s have g1: "getitem df1 dc = [conv]" by (simp add: getitem_setitem_series)
  with dt_Inr [OF m] have mo: "mo = [map dt_month conv]" by auto
  from s2 dcn(1) g1 have g2: "getitem df2 dc = [conv]" by (simp add: getitem_setitem_other)
  with dt_Inr [OF w] have dw: "dw = [map dt_dayofweek conv]" by auto
  from s3 dcn(2) g2 have g3: "getitem df3 dc = [conv]" by (simp add: getitem_setitem_other)
  with dt_Inr [OF y] have yr: "yr = [map dt_year conv]" by auto
  from s s1 s2 s3 s4 show ?thesis unfolding mo dw yr conv by blast
qed


lemma extends_refl: "extends df df"
  by (simp add: extends_def)

lemma extends_trans: "extends a b \<Longrightarrow> extends b c \<Longrightarrow> extends a c"
  by (auto simp: extends_def)

lemma extends_setitem:
  assumes "setitem df key vs = Inr df'" and "has_col df key \<or> key \<in> set derived_cols"
  shows "extends df df'"
proof (cases "has_col df key")
  case True
  with assms(1) have "names df' = names df" by (rule names_setitem_present)
  then show ?thesis by (simp add: extends_def)
next
  case False
  with assms(2) have "key \<in> set derived_cols" by simp
  with names_setitem [OF assms(1)] show ?thesis by (auto simp: extends_def)
qed

lemma date_block_frame:
  assumes "date_block parse df = Inr d"
  shows "find_date_col d = find_date_col df" and "extends df d" and "nrows d = nrows df"
    and "\<And>c. find_date_col df \<noteq> Some c \<Longrightarrow> c \<notin> set calendar_cols \<Longrightarrow> getitem d c = getitem df c"
    and "\<And>dc s. find_date_col df = Some dc \<Longrightarrow> getitem df dc = [s] \<Longrightarrow>
           getitem d dc = [to_datetime_series parse s]"
    and "dated d"
proof -
  have "find_date_col d = find_date_col df \<and> extends df d \<and> nrows d = nrows df
      \<and> (\<forall>c. find_date_col df \<noteq> Some c \<longrightarrow> c \<notin> set calendar_cols \<longrightarrow> getitem d c = getitem df c)
      \<and> (\<forall>dc s. find_date_col df = Some dc \<longrightarrow> getitem df dc = [s] \<longrightarrow>
           getitem d dc = [to_datetime_series parse s])
      \<and> dated d"
  proof (cases "find_date_col df")
    case None
    with assms have "d = df" by (simp add: date_block_None)
    with None show ?thesis by (simp add: extends_refl dated_def)
  next
    case (Some dc)
    from find_date_col_Some [OF Some] have h: "has_col df dc"
      and dcn: "dc \<noteq> ''MONTH''" "dc \<noteq> ''DAY_OF_WEEK''" "dc \<noteq> ''YEAR''"
      by (auto simp: derived_cols_def)
    from date_block_Some [OF assms Some] obtain s df1 df2 df3 where
      s: "getitem df dc = [s]" and
      s1: "setitem df dc [to_datetime_series parse s] = Inr df1" and
      s2: "setitem df1 ''MONTH'' [map dt_month (to_datetime_series parse s)] = Inr df2" and
      s3: "setitem df2 ''DAY_OF_WEEK'' [map dt_dayofweek (to_datetime_series parse s)] = Inr df3" and
      s4: "setitem df3 ''YEAR'' [map dt_year (to_datetime_series parse s)] = Inr d"
      by blast
    let ?conv = "to_datetime_series parse s"
    have f1: "find_date_col df1 = find_date_col df"
      using s1 h by (intro find_date_col_setitem) auto
    have f2: "find_date_col df2 = find_date_col df1"
      using s2 by (intro find_date_col_setitem) (auto simp: derived_cols_def)
    have f3: "find_date_col df3 = find_date_col df2"
      using s3 by (intro find_date_col_setitem) (auto simp: derived_cols_def)
    have f4: "find_date_col d = find_date_col df3"
      using s4 by (intro find_date_col_setitem) (auto simp: derived_cols_def)
    have fd: "find_date_col d = Some dc" using f1 f2 f3 f4 Some by simp
    have e: "extends df d"
    proof -
      have "extends df df1" using s1 h by (intro extends_setitem) auto
      moreover have "extends df1 df2" using s2 by (intro extends_setitem) (auto simp: derived_cols_def)
      moreover have "extends df2 df3" using s3 by (intro extends_setitem) (auto simp: derived_cols_def)
      moreover have "extends df3 d" using s4 by (intro extends_setitem) (auto simp: derived_cols_def)
      ultimately show ?thesis by (blast intro: extends_trans)
    qed
    have n: "nrows d = nrows df"
      using s1 s2 s3 s4 by (simp add: nrows_setitem)
    have other: "getitem d c = getitem df c" if "c \<noteq> dc" "c \<notin> set calendar_cols" for c
    proof -
      from that have "c \<noteq> ''MONTH''" "c \<noteq> ''DAY_OF_WEEK''" "c \<noteq> ''YEAR''"
        by (auto simp: calendar_cols_def)
      with that(1) s1 s2 s3 s4 show ?thesis by (simp add: getitem_setitem_other)
    qed
    have g1: "getitem df1 dc = [?conv]" using s1 s by (simp add: getitem_setitem_series)
    have gd: "getitem d dc = [?conv]"
      using g1 s2 s3 s4 dcn by (simp add: getitem_setitem_other)
    have am: "all_cols d ''MONTH'' (map dt_month ?conv)"
      using all_cols_setitem [OF s2] s3 s4 by (simp add: all_cols_other)
    have aw: "all_cols d ''DAY_OF_WEEK'' (map dt_dayofweek ?conv)"
      using all_cols_setitem [OF s3] s4 by (simp add: all_cols_other)
    have ay: "all_cols d ''YEAR'' (map dt_year ?conv)"
      using all_cols_setitem [OF s4] .
    have "dated d"
      unfolding dated_def fd using gd am aw ay is_time_to_datetime [of parse s] by auto
    with fd Some e n other s gd show ?thesis by auto
  qed
  then show "find_date_col d = find_date_col df" and "extends df d" and "nrows d = nrows df"
    and "\<And>c. find_date_col df \<noteq> Some c \<Longrightarrow> c \<notin> set calendar_cols \<Longrightarrow> getitem d c = getitem df c"
    and "\<And>dc s. find_date_col df = Some dc \<Longrightarrow> getitem df dc = [s] \<Longrightarrow>
           getitem d dc = [to_datetime_series parse s]"
    and "dated d"
    by blast+
qed

lemma date_block_dated_id:
  assumes "dated d"
  shows "date_block parse d = Inr d"
proof (cases "find_date_col d")
  case None
  then show ?thesis by (rule date_block_None)
next
  case (Some dc)
  with assms obtain conv where g: "getitem d dc = [conv]" and t: "list_all is_time conv"
    and am: "all_cols d ''MONTH'' (map dt_month conv)"
    and aw: "all_cols d ''DAY_OF_WEEK'' (map dt_dayofweek conv)"
    and ay: "all_cols d ''YEAR'' (map dt_year conv)"
    by (auto simp: dated_def)
  from g have h: "has_col d dc" by (simp add: has_col_getitem)
  have s1: "setitem d dc [conv] = Inr d"
    using h g by (intro setitem_const) auto
  have s2: "setitem d ''MONTH'' [map dt_month conv] = Inr d"
    using am by (intro setitem_const) (auto simp: all_cols_def)
  have s3: "setitem d ''DAY_OF_WEEK'' [map dt_dayofweek conv] = Inr d"
    using aw by (intro setitem_const) (auto simp: all_cols_def)
  have s4: "setitem d ''YEAR'' [map dt_year conv] = Inr d"
    using ay by (intro setitem_const) (auto simp: all_cols_def)
  from Some g t s1 s2 s3 s4 show ?thesis
    by (simp add: date_block.simps to_datetime_series_id)
qed


lemma fillna_idem: "fillna k (fillna k s) = fillna k s"
  by (simp add: fillna_def)

lemma fill_step:
  assumes "has_col df c"
  shows "\<exists>df'. setitem df c (map f (getitem df c)) = Inr df'
     \<and> getitem df' c = map f (getitem df c)"
proof (cases "length (getitem df c) = 1")
  case True
  then obtain s where s: "getitem df c = [s]" by (auto simp: length_Suc_conv)
  obtain df' where d: "setitem df c [f s] = Inr df'" by (simp add: setitem_series)
  with s getitem_setitem_series [OF d] show ?thesis by simp
next
  case False
  then obtain df' where d: "setitem df c (map f (getitem df c)) = Inr df'"
    by (simp add: setitem_frame)
  with False getitem_setitem_frame [OF d] show ?thesis by simp
qed

lemma fill_delays_frame:
  assumes "fill_delays cols df = Inr d"
  shows "names d = names df \<and> nrows d = nrows df
     \<and> (\<forall>c. c \<notin> set cols \<longrightarrow> getitem d c = getitem df c)
     \<and> (\<forall>c. c \<in> set cols \<longrightarrow> getitem d c = map (fillna 0) (getitem df c))"
  using assms
proof (induction cols arbitrary: df)
  case Nil
  then show ?case by simp
next
  case (Cons a cols)
  show ?case
  proof (cases "has_col df a")
    case False
    with Cons.prems have r: "fill_delays cols df = Inr d" by simp
    from False have e: "getitem df a = []" by (simp add: has_col_getitem)
    from Cons.IH [OF r] e show ?thesis
      by (cases "a \<in> set cols") auto
  next
    case True
    from fill_step [OF True, of "fillna 0"] obtain df' where
      s: "setitem df a (map (fillna 0) (getitem df a)) = Inr df'" and
      g: "getitem df' a = map (fillna 0) (getitem df a)" by blast
    with True Cons.prems have r: "fill_delays cols df' = Inr d" by simp
    have n: "names df' = names df" using s True by (rule names_setitem_present)
    have nr: "nrows df' = nrows df" using s by (rule nrows_setitem)
    have o: "getitem df' c = getitem df c" if "c \<noteq> a" for c
      using s that by (rule getitem_setitem_other)
    have "getitem d c = map (fillna 0) (getitem df c)" if "c \<in> set (a # cols)" for c
    proof (cases "c = a")
      case True
      with Cons.IH [OF r] g show ?thesis
        by (cases "a \<in> set cols") (auto simp: comp_def fillna_idem)
    next
      case False
      with that Cons.IH [OF r] o show ?thesis by auto
    qed
    moreover have "getitem d c = getitem df c" if "c \<notin> set (a # cols)" for c
      using that Cons.IH [OF r] o by auto
    ultimately show ?thesis using Cons.IH [OF r] n nr by auto
  qed
qed

lemma fill_delays_id:
  assumes "\<And>c s. c \<in> set cols \<Longrightarrow> s \<in> set (getitem d c) \<Longrightarrow> fillna 0 s = s"
  shows "fill_delays cols d = Inr d"
  using assms
proof (induction cols)
  case Nil
  then show ?case by simp
next
  case (Cons a cols)
  have "map (fillna 0) (getitem d a) = getitem d a"
    using Cons.prems by (intro map_idI) auto
  then have "setitem d a (map (fillna 0) (getitem d a)) = Inr d"
    by (simp add: setitem_getitem)
  moreover have "fill_delays cols d = Inr d"
    using Cons.prems by (intro Cons.IH) auto
  ultimately show ?case by simp
qed

lemma mapE_gt_Inr: "mapE (gt_cell k) s = Inr bs \<Longrightarrow> bs = map (exceeds k) s"
proof (induction s arbitrary: bs)
  case Nil
  then show ?case by simp
next
  case (Cons c s)
  then show ?case by (cases c) (auto simp: bindE_Inr)
qed

lemma mapE_gt_series_Inr:
  "mapE (\<lambda>s. gt_series s k) vs = Inr gts \<Longrightarrow> gts = map (map (exceeds k)) vs"
proof (induction vs arbitrary: gts)
  case Nil
  then show ?case by simp
next
  case (Cons s vs)
  then show ?case by (auto simp: bindE_Inr gt_series_def dest: mapE_gt_Inr)
qed

lemma astype_int_flags: "astype_int (map (exceeds 15) s) = map flag_of s"
  by (simp add: astype_int_def flag_of_def comp_def)

lemma delay_flag_Inr:
  assumes "delay_flag df = Inr d"
  shows "(\<not> has_col df ''ARR_DELAY'' \<and> d = df)
     \<or> (has_col df ''ARR_DELAY''
        \<and> mapE (\<lambda>s. gt_series s 15) (getitem df ''ARR_DELAY'')
            = Inr (map (map (exceeds 15)) (getitem df ''ARR_DELAY''))
        \<and> setitem df ''IS_DELAYED'' (map (map flag_of) (getitem df ''ARR_DELAY'')) = Inr d)"
proof (cases "has_col df ''ARR_DELAY''")
  case False
  with assms show ?thesis by (simp add: delay_flag.simps)
next
  case True
  with assms obtain gts where g: "mapE (\<lambda>s. gt_series s 15) (getitem df ''ARR_DELAY'') = Inr gts"
    and s: "setitem df ''IS_DELAYED'' (map astype_int gts) = Inr d"
    by (auto simp: delay_flag.simps bindE_Inr)
  from mapE_gt_series_Inr [OF g] have "gts = map (map (exceeds 15)) (getitem df ''ARR_DELAY'')" .
  with True g s show ?thesis by (simp add: comp_def astype_int_flags)
qed

lemma delay_flag_id:
  assumes "delay_flag df = Inr d"
  shows "delay_flag d = Inr d"
proof -
  from delay_flag_Inr [OF assms] show ?thesis
  proof
    assume "\<not> has_col df ''ARR_DELAY'' \<and> d = df"
    with assms show ?thesis by simp
  next
    assume a: "has_col df ''ARR_DELAY''
        \<and> mapE (\<lambda>s. gt_series s 15) (getitem df ''ARR_DELAY'')
            = Inr (map (map (exceeds 15)) (getitem df ''ARR_DELAY''))
        \<and> setitem df ''IS_DELAYED'' (map (map flag_of) (getitem df ''ARR_DELAY'')) = Inr d"
    then have s: "setitem df ''IS_DELAYED'' (map (map flag_of) (getitem df ''ARR_DELAY'')) = Inr d"
      by simp
    have g: "getitem d ''ARR_DELAY'' = getitem df ''ARR_DELAY''"
      using s by (rule getitem_setitem_other) simp
    with a have h: "has_col d ''ARR_DELAY''" by (simp add: has_col_getitem)
    from setitem_twice [OF s] a g h show ?thesis
      by (simp add: delay_flag.simps comp_def astype_int_flags)
  qed
qed

lemma dated_setitem:
  assumes "dated df" and "setitem df key vs = Inr df'" and "key \<in> set (''IS_DELAYED'' # delay_cols)"
  shows "dated df'"
proof -
  from assms(3) have k: "key \<in> set (derived_cols @ delay_cols)"
    and kn: "key \<noteq> ''MONTH''" "key \<noteq> ''DAY_OF_WEEK''" "key \<noteq> ''YEAR''"
    by (auto simp: derived_cols_def delay_cols_def)
  have f: "find_date_col df' = find_date_col df"
    using k by (intro find_date_col_setitem [OF assms(2)] disjI2)
  show ?thesis
  proof (cases "find_date_col df")
    case None
    with f show ?thesis by (simp add: dated_def)
  next
    case (Some dc)
    from find_date_col_Some(2) [OF Some] k have "dc \<noteq> key" by auto
    with assms(2) have "getitem df' dc = getitem df dc" by (intro getitem_setitem_other) auto
    with assms(1) Some f kn assms(2) show ?thesis
      by (auto simp: dated_def all_cols_other)
  qed
qed

lemma dated_fill_delays:
  assumes "dated df" and "fill_delays cols df = Inr d" and "set cols \<subseteq> set delay_cols"
  shows "dated d"
  using assms
proof (induction cols arbitrary: df)
  case Nil
  then show ?case by simp
next
  case (Cons a cols)
  show ?case
  proof (cases "has_col df a")
    case False
    with Cons show ?thesis by simp
  next
    case True
    with Cons.prems(2) obtain df' where s: "setitem df a (map (fillna 0) (getitem df a)) = Inr df'"
      and r: "fill_delays cols df' = Inr d"
      by (auto simp: bindE_Inr)
    from Cons.prems(3) have "a \<in> set (''IS_DELAYED'' # delay_cols)" by simp
    with Cons.prems(1) s have "dated df'" by (rule dated_setitem)
    with r Cons.prems(3) Cons.IH show ?thesis by simp
  qed
qed


lemma clean_steps:
  assumes "clean_flight_data parse df = Inr d"
  shows "\<exists>d1 d2. date_block parse (rename_all column_mapping df) = Inr d1
     \<and> fill_delays delay_cols d1 = Inr d2 \<and> delay_flag d2 = Inr d"
  using assms by (auto simp: clean_flight_data.simps bindE_Inr)

lemma delay_flag_frame:
  assumes "delay_flag df = Inr d"
  shows "extends df d" and "nrows d = nrows df"
    and "\<And>c. c \<noteq> ''IS_DELAYED'' \<Longrightarrow> getitem d c = getitem df c"
    and "dated df \<Longrightarrow> dated d"
proof -
  from delay_flag_Inr [OF assms]
  have "d = df \<or> (\<exists>vs. setitem df ''IS_DELAYED'' vs = Inr d)" by blast
  then have "extends df d \<and> nrows d = nrows df
      \<and> (\<forall>c. c \<noteq> ''IS_DELAYED'' \<longrightarrow> getitem d c = getitem df c) \<and> (dated df \<longrightarrow> dated d)"
  proof
    assume "d = df"
    then show ?thesis by (simp add: extends_refl)
  next
    assume "\<exists>vs. setitem df ''IS_DELAYED'' vs = Inr d"
    then obtain vs where s: "setitem df ''IS_DELAYED'' vs = Inr d" by blast
    have "extends df d" using s by (intro extends_setitem) (auto simp: derived_cols_def)
    moreover have "nrows d = nrows df" using s by (rule nrows_setitem)
    moreover have "getitem d c = getitem df c" if "c \<noteq> ''IS_DELAYED''" for c
      using s that by (rule getitem_setitem_other)
    moreover have "dated d" if "dated df"
      using that s by (rule dated_setitem) simp
    ultimately show ?thesis by blast
  qed
  then show "extends df d" and "nrows d = nrows df"
    and "\<And>c. c \<noteq> ''IS_DELAYED'' \<Longrightarrow> getitem d c = getitem df c"
    and "dated df \<Longrightarrow> dated d"
    by blast+
qed

lemma clean_names:
  assumes "clean_flight_data parse df = Inr d"
  shows "\<exists>ex. names d = map final_label (names df) @ ex \<and> set ex \<subseteq> set derived_cols"
proof -
  from clean_steps [OF assms] obtain d1 d2 where
    a: "date_block parse (rename_all column_mapping df) = Inr d1" and
    b: "fill_delays delay_cols d1 = Inr d2" and c: "delay_flag d2 = Inr d" by blast
  from date_block_frame(2) [OF a] have "extends (rename_all column_mapping df) d1" .
  moreover from fill_delays_frame [OF b] have "names d2 = names d1" by simp
  moreover from delay_flag_frame(1) [OF c] have "extends d2 d" .
  ultimately show ?thesis
    by (auto simp: extends_def names_rename_all)
qed

lemma clean_labels_fixed:
  assumes "clean_flight_data parse df = Inr d" and "n \<in> set (names d)"
  shows "final_label n = n"
proof -
  from clean_names [OF assms(1)] obtain ex where
    n: "names d = map final_label (names df) @ ex" and ex: "set ex \<subseteq> set derived_cols" by blast
  from assms(2) n have "n \<in> final_label ` set (names df) \<or> n \<in> set ex" by auto
  then show ?thesis
  proof
    assume "n \<in> final_label ` set (names df)"
    then show ?thesis by (auto simp: final_label_idem)
  next
    assume "n \<in> set ex"
    with ex have "n \<in> set (derived_cols @ delay_cols)" by auto
    with final_label_derived show ?thesis unfolding list_all_iff by blast
  qed
qed

lemma fill_delays_again:
  assumes b: "fill_delays delay_cols d1 = Inr d2" and c: "delay_flag d2 = Inr d"
  shows "fill_delays delay_cols d = Inr d"
proof (rule fill_delays_id)
  fix col s assume col: "col \<in> set delay_cols" and s: "s \<in> set (getitem d col)"
  from col have "col \<noteq> ''IS_DELAYED''" by (auto simp: delay_cols_def)
  with delay_flag_frame(3) [OF c] have "getitem d col = getitem d2 col" by simp
  also from fill_delays_frame [OF b] col have "\<dots> = map (fillna 0) (getitem d1 col)" by simp
  finally have "getitem d col = map (fillna 0) (getitem d1 col)" .
  with s obtain s0 where "s = fillna 0 s0" by auto
  then show "fillna 0 s = s" by (simp add: fillna_idem)
qed

text \<open>
  Claim C9. Cleaning is idempotent: whenever \<^verbatim>\<open>clean_flight_data\<close> returns a table, cleaning
  that table again returns it unchanged (same columns in the same order, same cells),
  whatever pandas' date parser does on strings and numbers.
\<close>

theorem clean_flight_data_idempotent:
  assumes "clean_flight_data parse df = Inr d"
  shows "clean_flight_data parse d = Inr d"
proof -
  from clean_steps [OF assms] obtain d1 d2 where
    a: "date_block parse (rename_all column_mapping df) = Inr d1" and
    b: "fill_delays delay_cols d1 = Inr d2" and c: "delay_flag d2 = Inr d" by blast
  have r: "rename_all column_mapping d = d"
    using clean_labels_fixed [OF assms] by (rule rename_all_fixed)
  have "dated d1" using a by (rule date_block_frame(6))
  then have "dated d2" using b by (rule dated_fill_delays) (rule subset_refl)
  then have "dated d" by (rule delay_flag_frame(4) [OF c])
  then have dt: "date_block parse d = Inr d" by (rule date_block_dated_id)
  have fl: "fill_delays delay_cols d = Inr d" using b c by (rule fill_delays_again)
  have fg: "delay_flag d = Inr d" using c by (rule delay_flag_id)
  show ?thesis
    unfolding clean_flight_data.simps r dt bindE.simps fl by (rule fg)
qed

section \<open>The columns of a cleaned table\<close>

lemma clean_raw_flights: "clean_flight_data new_year_parse raw_flights = Inr cleaned_flights"
  by (simp add: raw_flights_def cleaned_flights_def new_year_parse_def clean_defs frame_defs)

lemma length_getitem: "length (getitem d f) = length (filter (\<lambda>n. n = f) (names d))"
  by (simp add: getitem_def names_def filter_map comp_def)

lemma find_date_col_Some_date:
  "find_date_col df = Some dc \<Longrightarrow> dc = ''FL_DATE'' \<or> contains ''date'' (lower dc)"
  by (auto simp: find_date_col_def find_Some_iff split: if_splits)

lemma canonical_fields_targets: "remdups (map snd column_mapping) = canonical_fields"
  by code_simp

lemma canonical_not_derived: "list_all (\<lambda>f. f \<notin> set derived_cols) canonical_fields"
  by code_simp

lemma plain_fields_untouched:
  "list_all (\<lambda>f. f \<noteq> ''IS_DELAYED'' \<and> f \<notin> set delay_cols \<and> f \<notin> set calendar_cols
                \<and> \<not> contains ''date'' (lower f) \<and> f \<noteq> ''FL_DATE'') plain_fields"
  by code_simp

lemma no_target_is_flag: "list_all (\<lambda>m. snd m \<noteq> ''IS_DELAYED'') column_mapping"
  by code_simp

lemma final_label_flag: "final_label n = ''IS_DELAYED'' \<longleftrightarrow> n = ''IS_DELAYED''"
proof
  assume a: "final_label n = ''IS_DELAYED''"
  show "n = ''IS_DELAYED''"
  proof (cases "map_of column_mapping n")
    case None
    with a show ?thesis by (simp add: final_label_def)
  next
    case (Some t)
    then have "(n, t) \<in> set column_mapping" by (rule map_of_SomeD)
    with no_target_is_flag have "t \<noteq> ''IS_DELAYED''" unfolding list_all_iff by auto
    with a Some show ?thesis by (simp add: final_label_def)
  qed
next
  assume "n = ''IS_DELAYED''"
  moreover have "''IS_DELAYED'' \<in> set (derived_cols @ delay_cols)" by (simp add: derived_cols_def)
  ultimately show "final_label n = ''IS_DELAYED''"
    using final_label_derived unfolding list_all_iff by blast
qed

text \<open>
  Claim C3, as amended. Whenever \<^verbatim>\<open>clean_flight_data\<close> returns a table, each canonical field
  labels as many of its columns as the input has columns labelled with one of the field's
  spellings (a key the mapping sends to the field, or the canonical name itself): renaming
  neither merges nor overwrites columns. So exactly one spelling in the input gives exactly
  one canonical column, and several give several columns with the same label. For the
  fields that are neither the date nor a delay (carrier, origin, destination, cancelled,
  diverted) those columns hold the cells of the input columns, in the input's order.
\<close>

theorem column_names_normalized:
  assumes "clean_flight_data parse df = Inr d"
  shows "(f \<in> set canonical_fields \<longrightarrow>
            length (getitem d f) = length (filter (\<lambda>n. final_label n = f) (names df)))
     \<and> (f \<in> set plain_fields \<longrightarrow>
            getitem d f = map snd (filter (\<lambda>p. final_label (fst p) = f) (columns df)))"
proof (intro conjI impI)
  assume f: "f \<in> set canonical_fields"
  with canonical_not_derived have nd: "f \<notin> set derived_cols" unfolding list_all_iff by blast
  from clean_names [OF assms] obtain ex where
    n: "names d = map final_label (names df) @ ex" and ex: "set ex \<subseteq> set derived_cols" by blast
  from nd ex have "filter (\<lambda>n. n = f) ex = []" by (auto simp: filter_empty_conv)
  with n show "length (getitem d f) = length (filter (\<lambda>n. final_label n = f) (names df))"
    by (simp add: length_getitem filter_map comp_def)
next
  assume f: "f \<in> set plain_fields"
  with plain_fields_untouched have p: "f \<noteq> ''IS_DELAYED''" "f \<notin> set delay_cols"
    "f \<notin> set calendar_cols" "\<not> contains ''date'' (lower f)" "f \<noteq> ''FL_DATE''"
    unfolding list_all_iff by blast+
  from clean_steps [OF assms] obtain d1 d2 where
    a: "date_block parse (rename_all column_mapping df) = Inr d1" and
    b: "fill_delays delay_cols d1 = Inr d2" and c: "delay_flag d2 = Inr d" by blast
  from p(4,5) have "find_date_col (rename_all column_mapping df) \<noteq> Some f"
    using find_date_col_Some_date by blast
  with date_block_frame(4) [OF a] p(3)
  have "getitem d1 f = getitem (rename_all column_mapping df) f" by simp
  moreover from fill_delays_frame [OF b] p(2) have "getitem d2 f = getitem d1 f" by simp
  moreover from delay_flag_frame(3) [OF c] p(1) have "getitem d f = getitem d2 f" by simp
  ultimately show "getitem d f = map snd (filter (\<lambda>p. final_label (fst p) = f) (columns df))"
    by (simp add: getitem_rename_all)
qed

text \<open>
  Claim C4, as amended. Whenever \<^verbatim>\<open>clean_flight_data\<close> returns a table: if the input has one
  arrival-delay column (under any of its spellings), the cleaned \<^verbatim>\<open>ARR_DELAY\<close> column is that
  column with 0 in place of every missing value, an \<^verbatim>\<open>IS_DELAYED\<close> column exists, and every
  \<^verbatim>\<open>IS_DELAYED\<close> column holds, record by record, 1 where the cleaned arrival delay is
  greater than 15 and 0 elsewhere; a record whose arrival delay was missing thus has
  delay 0 and flag 0. If the input has no arrival-delay column, cleaning neither creates
  nor changes an \<^verbatim>\<open>IS_DELAYED\<close> column.
\<close>

theorem delay_flag_after_cleaning:
  assumes "clean_flight_data parse df = Inr d"
  shows "(map snd (filter (\<lambda>p. final_label (fst p) = ''ARR_DELAY'') (columns df)) = [arr] \<longrightarrow>
            getitem d ''ARR_DELAY'' = [fillna 0 arr] \<and> has_col d ''IS_DELAYED''
            \<and> list_all (\<lambda>fl. fl = map flag_of (fillna 0 arr)) (getitem d ''IS_DELAYED''))
     \<and> (map snd (filter (\<lambda>p. final_label (fst p) = ''ARR_DELAY'') (columns df)) = [] \<longrightarrow>
            getitem d ''IS_DELAYED'' = getitem df ''IS_DELAYED'')"
proof -
  from clean_steps [OF assms] obtain d1 d2 where
    a: "date_block parse (rename_all column_mapping df) = Inr d1" and
    b: "fill_delays delay_cols d1 = Inr d2" and c: "delay_flag d2 = Inr d" by blast
  let ?d0 = "rename_all column_mapping df"
  have nd1: "find_date_col ?d0 \<noteq> Some ''ARR_DELAY''"
  proof
    assume "find_date_col ?d0 = Some ''ARR_DELAY''"
    from find_date_col_Some(2) [OF this] show False by (simp add: delay_cols_def)
  qed
  have nd2: "find_date_col ?d0 \<noteq> Some ''IS_DELAYED''"
  proof
    assume "find_date_col ?d0 = Some ''IS_DELAYED''"
    from find_date_col_Some(2) [OF this] show False by (simp add: derived_cols_def)
  qed
  have g1: "getitem d1 ''ARR_DELAY'' = getitem ?d0 ''ARR_DELAY''"
    by (rule date_block_frame(4) [OF a nd1]) (simp add: calendar_cols_def)
  have g2: "getitem d2 ''ARR_DELAY'' = map (fillna 0) (getitem d1 ''ARR_DELAY'')"
    using fill_delays_frame [OF b] by (simp add: delay_cols_def)
  have g3: "getitem d ''ARR_DELAY'' = getitem d2 ''ARR_DELAY''"
    using delay_flag_frame(3) [OF c] by simp
  have i1: "getitem d1 ''IS_DELAYED'' = getitem ?d0 ''IS_DELAYED''"
    by (rule date_block_frame(4) [OF a nd2]) (simp add: calendar_cols_def)
  have i2: "getitem d2 ''IS_DELAYED'' = getitem d1 ''IS_DELAYED''"
    using fill_delays_frame [OF b] by (simp add: delay_cols_def)
  have i0: "getitem ?d0 ''IS_DELAYED'' = getitem df ''IS_DELAYED''"
    unfolding getitem_rename_all by (simp add: final_label_flag getitem_def)
  show ?thesis
  proof (intro conjI impI)
    assume arr: "map snd (filter (\<lambda>p. final_label (fst p) = ''ARR_DELAY'') (columns df)) = [arr]"
    then have e: "getitem d2 ''ARR_DELAY'' = [fillna 0 arr]"
      using g1 g2 by (simp add: getitem_rename_all)
    with g3 show "getitem d ''ARR_DELAY'' = [fillna 0 arr]" by simp
    from e have "has_col d2 ''ARR_DELAY''" by (simp add: has_col_getitem)
    with delay_flag_Inr [OF c]
    have "setitem d2 ''IS_DELAYED'' (map (map flag_of) (getitem d2 ''ARR_DELAY'')) = Inr d"
      by blast
    then have s: "setitem d2 ''IS_DELAYED'' [map flag_of (fillna 0 arr)] = Inr d"
      unfolding e by simp
    then show "has_col d ''IS_DELAYED''" by (rule has_col_setitem_key) simp
    from getitem_setitem_series [OF s]
    show "list_all (\<lambda>fl. fl = map flag_of (fillna 0 arr)) (getitem d ''IS_DELAYED'')"
      by (simp add: list_all_iff)
  next
    assume "map snd (filter (\<lambda>p. final_label (fst p) = ''ARR_DELAY'') (columns df)) = []"
    then have "getitem d2 ''ARR_DELAY'' = []"
      using g1 g2 by (simp add: getitem_rename_all)
    then have "\<not> has_col d2 ''ARR_DELAY''" by (simp add: has_col_getitem)
    with delay_flag_Inr [OF c] have "d = d2" by blast
    with i0 i1 i2 show "getitem d ''IS_DELAYED'' = getitem df ''IS_DELAYED''" by simp
  qed
qed


text \<open>The scenario of claim C3: a table with \<^verbatim>\<open>Reporting_Airline\<close> and no \<^verbatim>\<open>OP_CARRIER\<close> has,
  after cleaning, exactly one column \<^verbatim>\<open>OP_CARRIER\<close>, with the original values.\<close>

theorem column_names_normalized_witness:
  "clean_flight_data new_year_parse raw_flights = Inr cleaned_flights
   \<and> ''OP_CARRIER'' \<in> set canonical_fields \<and> ''OP_CARRIER'' \<in> set plain_fields
   \<and> filter (\<lambda>n. final_label n = ''OP_CARRIER'') (names raw_flights) = [''Reporting_Airline'']
   \<and> length (getitem cleaned_flights ''OP_CARRIER'') = 1
   \<and> getitem cleaned_flights ''OP_CARRIER'' = [[Str ''AA'', Str ''DL'']]"
  using column_names_normalized [OF clean_raw_flights, of "''OP_CARRIER''"] clean_raw_flights
  by (simp add: canonical_fields_def plain_fields_def raw_flights_def names_def
      final_label_def column_mapping_def)

text \<open>
  The claim as stated, exactly one canonical column however many spellings are present,
  with the last one winning, fails when two spellings are present: \<^verbatim>\<open>Airline\<close> and
  \<^verbatim>\<open>Reporting_Airline\<close> both become \<^verbatim>\<open>OP_CARRIER\<close>, and both columns remain.
\<close>

theorem column_names_normalized_counterexample:
  "clean_flight_data no_parse two_spellings = Inr two_carriers
   \<and> getitem two_carriers ''OP_CARRIER'' = [[Str ''AA''], [Str ''DL'']]"
  by (simp add: two_spellings_def two_carriers_def clean_defs frame_defs)

text \<open>The first record of \<open>raw_flights\<close> has no arrival delay and the second one of 20
  minutes: after cleaning the delays are 0 and 20 and the flags 0 and 1. The table
  \<open>two_spellings\<close> has no arrival delay, and cleaning gives it no flag.\<close>

theorem delay_flag_after_cleaning_witness:
  "clean_flight_data new_year_parse raw_flights = Inr cleaned_flights
   \<and> map snd (filter (\<lambda>p. final_label (fst p) = ''ARR_DELAY'') (columns raw_flights))
       = [[NA, Num 20]]
   \<and> getitem cleaned_flights ''ARR_DELAY'' = [[Num 0, Num 20]]
   \<and> has_col cleaned_flights ''IS_DELAYED''
   \<and> getitem cleaned_flights ''IS_DELAYED'' = [[Num 0, Num 1]]
   \<and> map flag_of (fillna 0 [NA, Num 20]) = [Num 0, Num 1]
   \<and> clean_flight_data no_parse two_spellings = Inr two_carriers
   \<and> map snd (filter (\<lambda>p. final_label (fst p) = ''ARR_DELAY'') (columns two_spellings)) = []
   \<and> getitem two_carriers ''IS_DELAYED'' = []"
proof -
  have c: "clean_flight_data no_parse two_spellings = Inr two_carriers"
    by (simp add: two_spellings_def two_carriers_def clean_defs frame_defs)
  from delay_flag_after_cleaning [OF clean_raw_flights, of "[NA, Num 20]"]
    delay_flag_after_cleaning [OF c] clean_raw_flights c
  show ?thesis
    by (simp add: raw_flights_def cleaned_flights_def two_spellings_def two_carriers_def
        final_label_def column_mapping_def getitem_def has_col_def names_def fillna_def
        flag_of_def)
qed

text \<open>
  The claim as stated, no flag for a record without arrival delay, fails on a table whose
  one record has a missing arrival delay: cleaning fills in 0 and sets the flag to 0.
\<close>

theorem delay_flag_after_cleaning_counterexample:
  "clean_flight_data no_parse \<lparr>nrows = 1, columns = [(''ARR_DELAY'', [NA])]\<rparr>
     = Inr \<lparr>nrows = 1, columns = [(''ARR_DELAY'', [Num 0]), (''IS_DELAYED'', [Num 0])]\<rparr>"
  by (simp add: clean_defs frame_defs)

text \<open>Cleaning \<open>raw_flights\<close> gives \<open>cleaned_flights\<close>, and cleaning that gives it again.\<close>

theorem clean_flight_data_idempotent_witness:
  "clean_flight_data new_year_parse raw_flights = Inr cleaned_flights
   \<and> clean_flight_data new_year_parse cleaned_flights = Inr cleaned_flights"
  using clean_flight_data_idempotent [OF clean_raw_flights] clean_raw_flights
  by simp

end
